theory Spec2Isabelle
  imports Complex_Main "HOL-Library.AList" "HOL-Library.Word"
begin

section \<open>JavaScript numbers\<close>

text \<open>
  A JavaScript number is an IEEE 754 binary64 number. Every arithmetic operation returns
  the exact result rounded to the nearest number with a significand of 53 bits, a tie
  going to the even significand; a decimal literal denotes the number nearest to it.
  \<open>fl\<close> is that rounding on the reals. The unit in the last place of \<open>x\<close> is
  \<open>2 powi ulp_exponent x\<close>; it is never below \<open>2 powi - 1074\<close>, the spacing of the
  subnormal numbers. Overflow to an infinity is not part of \<open>fl\<close>: the numbers rounded
  here are scores, fractions, sums of contrast ratios, hues and the weighted channels of a
  pixel, all far below the largest binary64 number.
\<close>

definition round_even :: "real \<Rightarrow> int" where
  "round_even y =
     (let n = \<lfloor>y\<rfloor> in
      if y - of_int n < 1 / 2 then n
      else if y - of_int n > 1 / 2 then n + 1
      else if even n then n else n + 1)"

definition ulp_exponent :: "real \<Rightarrow> int" where
  "ulp_exponent x = max (\<lfloor>log 2 \<bar>x\<bar>\<rfloor> - 52) (- 1074)"

definition fl :: "real \<Rightarrow> real" where
  "fl x = (if x = 0 then 0
           else of_int (round_even (x / 2 powi ulp_exponent x)) * 2 powi ulp_exponent x)"

text \<open>
  The score aggregation, the accessibility score and the colour harmony, with the hues of
  the colours and their differences, are modelled with the rounding of every operation
  written out. The other computations of the analyzers are modelled over the reals, their
  roundings left out, with the non-finite values a division can produce written out:
  \<open>0 / 0\<close> is \<open>NaN\<close>, and a non-zero number divided by zero is an infinity of its sign.
\<close>

datatype number = Fin real | PInf | NInf | NaN

text \<open>\<open>Math.round\<close>: the nearest integer, a tie going towards plus infinity.\<close>

definition js_round :: "real \<Rightarrow> int" where
  "js_round v = \<lfloor>v + 1 / 2\<rfloor>"

text \<open>
  Arithmetic on \<open>number\<close>, as IEEE 754 defines it for the non-finite values. The sign of
  a zero is not modelled: a zero divisor counts as positive, which it is wherever the
  analyzers divide (a pixel count, a sum of non-negative weights, the area of a bounding
  box of boxes of non-negative size).
\<close>

fun js_add :: "number \<Rightarrow> number \<Rightarrow> number" where
  "js_add (Fin a) (Fin b) = Fin (a + b)"
| "js_add NaN _ = NaN"
| "js_add _ NaN = NaN"
| "js_add PInf NInf = NaN"
| "js_add NInf PInf = NaN"
| "js_add PInf _ = PInf"
| "js_add _ PInf = PInf"
| "js_add NInf _ = NInf"
| "js_add _ NInf = NInf"

fun js_neg :: "number \<Rightarrow> number" where
  "js_neg (Fin a) = Fin (- a)"
| "js_neg PInf = NInf"
| "js_neg NInf = PInf"
| "js_neg NaN = NaN"

definition js_sub :: "number \<Rightarrow> number \<Rightarrow> number" where
  "js_sub a b = js_add a (js_neg b)"

fun js_abs :: "number \<Rightarrow> number" where
  "js_abs (Fin a) = Fin \<bar>a\<bar>"
| "js_abs PInf = PInf"
| "js_abs NInf = PInf"
| "js_abs NaN = NaN"

text \<open>\<open>Math.pow(v, 2)\<close>.\<close>

fun js_pow2 :: "number \<Rightarrow> number" where
  "js_pow2 (Fin a) = Fin (a * a)"
| "js_pow2 PInf = PInf"
| "js_pow2 NInf = PInf"
| "js_pow2 NaN = NaN"

fun js_div :: "number \<Rightarrow> number \<Rightarrow> number" where
  "js_div (Fin a) (Fin b) =
     (if b \<noteq> 0 then Fin (a / b) else if a > 0 then PInf else if a < 0 then NInf else NaN)"
| "js_div NaN _ = NaN"
| "js_div _ NaN = NaN"
| "js_div (Fin a) _ = Fin 0"
| "js_div PInf (Fin b) = (if b \<ge> 0 then PInf else NInf)"
| "js_div NInf (Fin b) = (if b \<ge> 0 then NInf else PInf)"
| "js_div _ _ = NaN"

text \<open>\<open>Math.max\<close> of two numbers: \<open>NaN\<close> when either is.\<close>

fun js_max :: "number \<Rightarrow> number \<Rightarrow> number" where
  "js_max (Fin a) (Fin b) = Fin (max a b)"
| "js_max NaN _ = NaN"
| "js_max _ NaN = NaN"
| "js_max PInf _ = PInf"
| "js_max _ PInf = PInf"
| "js_max NInf b = b"
| "js_max a NInf = a"

text \<open>The comparisons: false when either side is \<open>NaN\<close>.\<close>

fun js_gt :: "number \<Rightarrow> number \<Rightarrow> bool" where
  "js_gt (Fin a) (Fin b) = (a > b)"
| "js_gt NaN _ = False"
| "js_gt _ NaN = False"
| "js_gt PInf PInf = False"
| "js_gt PInf _ = True"
| "js_gt _ PInf = False"
| "js_gt NInf _ = False"
| "js_gt _ NInf = True"

definition js_lt :: "number \<Rightarrow> number \<Rightarrow> bool" where
  "js_lt a b = js_gt b a"

definition js_ge :: "number \<Rightarrow> number \<Rightarrow> bool" where
  "js_ge a b = (js_gt a b \<or> (a \<noteq> NaN \<and> a = b))"

definition js_le :: "number \<Rightarrow> number \<Rightarrow> bool" where
  "js_le a b = js_ge b a"

section \<open>Score aggregation (tools/design-analysis/index.ts)\<close>

record module_scores =
  color :: real
  composition :: real
  typography :: real
  accessibility :: real

record score_weights =
  w_color :: real
  w_composition :: real
  w_typography :: real
  w_accessibility :: real

definition weights :: score_weights where
  "weights = \<lparr>w_color = fl 0.25, w_composition = fl 0.30, w_typography = fl 0.25,
              w_accessibility = fl 0.20\<rparr>"

text \<open>
  \<open>Object.entries(scores)\<close> lists the four categories in the order the caller wrote
  them; each is paired here with its weight \<open>weights[category]\<close>.
\<close>

definition score_entries :: "module_scores \<Rightarrow> (real \<times> real) list" where
  "score_entries scores =
     [(color scores, w_color weights),
      (composition scores, w_composition weights),
      (typography scores, w_typography weights),
      (accessibility scores, w_accessibility weights)]"

definition calculateOverallScore :: "module_scores \<Rightarrow> int" where
  "calculateOverallScore scores =
     (let totalScore = fold (\<lambda>(score, weight) totalScore. fl (totalScore + fl (score * weight)))
                            (score_entries scores) 0
      in js_round totalScore)"

text \<open>The weighted sum of the specification, in exact arithmetic.\<close>

definition weighted_sum :: "module_scores \<Rightarrow> real" where
  "weighted_sum scores = 0.25 * color scores + 0.30 * composition scores
                           + 0.25 * typography scores + 0.20 * accessibility scores"

section \<open>Exceptions\<close>

text \<open>
  Every \<open>throw\<close> the analyzers can meet is a value: a failed image decode, a pixel read
  outside the bitmap buffer, a call with more arguments than the engine takes, a colour
  string that chroma-js cannot read, a failed text recognition. A computation that may throw returns \<open>error + 'a\<close>, \<open>Inl\<close> the exception.
\<close>

datatype error = DecodeError | RangeError | UnknownFormat | RecognitionError

definition ebind :: "error + 'a \<Rightarrow> ('a \<Rightarrow> error + 'b) \<Rightarrow> error + 'b" where
  "ebind m f = (case m of Inl e \<Rightarrow> Inl e | Inr v \<Rightarrow> f v)"

text \<open>A \<open>for\<close> loop whose body may throw: the first exception leaves the loop.\<close>

fun foldE :: "('a \<Rightarrow> 's \<Rightarrow> error + 's) \<Rightarrow> 'a list \<Rightarrow> 's \<Rightarrow> error + 's" where
  "foldE f [] s = Inr s"
| "foldE f (v # vs) s = (case f v s of Inl e \<Rightarrow> Inl e | Inr s' \<Rightarrow> foldE f vs s')"

text \<open>
  \<open>yields r P\<close>: the computation \<open>r\<close> returns, and its value satisfies \<open>P\<close>.
\<close>

definition yields :: "error + 'a \<Rightarrow> ('a \<Rightarrow> bool) \<Rightarrow> bool" where
  "yields r P = (case r of Inr v \<Rightarrow> P v | Inl e \<Rightarrow> False)"

text \<open>
  A call \<open>f(...xs)\<close> passes every element of \<open>xs\<close> as an argument of its own. An engine
  takes only so many arguments in one call, as many as its stack holds, and throws a
  range error beyond. The bound is the engine's: it is a parameter \<open>maxArguments\<close> of the
  model. \<open>Math.max\<close> and \<open>Math.min\<close> are spread here over lists that are not empty. The
  bound is modelled where the pixels of a raster or the hues of a palette are spread; the
  typography analyzer spreads the sizes and the positions of the recognised words, and
  there the bound is left out.
\<close>

definition spread :: "nat \<Rightarrow> 'a list \<Rightarrow> error + 'a list" where
  "spread maxArguments xs = (if length xs > maxArguments then Inl RangeError else Inr xs)"

definition math_max :: "nat \<Rightarrow> real list \<Rightarrow> error + real" where
  "math_max maxArguments xs = ebind (spread maxArguments xs) (\<lambda>arguments. Inr (Max (set arguments)))"

definition math_min :: "nat \<Rightarrow> real list \<Rightarrow> error + real" where
  "math_min maxArguments xs = ebind (spread maxArguments xs) (\<lambda>arguments. Inr (Min (set arguments)))"

section \<open>Colours (chroma-js, as the analyzers use it)\<close>

text \<open>
  A chroma-js colour object holds its red, green and blue channels, each in the range
  0 to 255. The constructor \<open>chroma(string)\<close> reads hex, named and functional notations;
  it is a parameter \<open>parse\<close> of the model, \<open>None\<close> where chroma-js throws.
\<close>

datatype chroma_color = Chroma (channel_r: real) (channel_g: real) (channel_b: real)

definition chroma :: "(string \<Rightarrow> chroma_color option) \<Rightarrow> string \<Rightarrow> error + chroma_color" where
  "chroma parse c = (case parse c of Some k \<Rightarrow> Inr k | None \<Rightarrow> Inl UnknownFormat)"

text \<open>
  \<open>color.get('hsl.h')\<close>: the hue in degrees, \<open>NaN\<close> for a grey. chroma-js computes it
  from the channels by divisions, subtractions, an addition and a multiplication, each
  rounded.
\<close>

definition hsl_h :: "chroma_color \<Rightarrow> number" where
  "hsl_h k =
     (let r = fl (channel_r k / 255); g = fl (channel_g k / 255); b = fl (channel_b k / 255);
          minRgb = min r (min g b); maxRgb = max r (max g b)
      in if maxRgb = minRgb then NaN
         else
           let h = (if r = maxRgb then fl (fl (g - b) / fl (maxRgb - minRgb))
                    else if g = maxRgb then fl (2 + fl (fl (b - r) / fl (maxRgb - minRgb)))
                    else fl (4 + fl (fl (r - g) / fl (maxRgb - minRgb))));
               h60 = fl (h * 60)
           in Fin (if h60 < 0 then fl (h60 + 360) else h60))"

text \<open>
  \<open>x || 0\<close> on a hue: 0 for \<open>NaN\<close> and for 0, the hue otherwise (a hue is never
  infinite).
\<close>

definition or_zero :: "number \<Rightarrow> real" where
  "or_zero v = (case v of Fin h \<Rightarrow> h | _ \<Rightarrow> 0)"

definition luminance_x :: "real \<Rightarrow> real" where
  "luminance_x v = (let x = v / 255 in
     if x \<le> 0.03928 then x / 12.92 else ((x + 0.055) / 1.055) powr 2.4)"

definition luminance :: "chroma_color \<Rightarrow> real" where
  "luminance k = 0.2126 * luminance_x (channel_r k) + 0.7152 * luminance_x (channel_g k)
                   + 0.0722 * luminance_x (channel_b k)"

text \<open>\<open>chroma.contrast\<close> of two colour objects.\<close>

definition contrast :: "chroma_color \<Rightarrow> chroma_color \<Rightarrow> real" where
  "contrast a b = (let l1 = luminance a; l2 = luminance b in
     if l1 > l2 then (l1 + 0.05) / (l2 + 0.05) else (l2 + 0.05) / (l1 + 0.05))"

text \<open>\<open>chroma.contrast\<close> of two strings: each goes through the constructor first.\<close>

definition chroma_contrast :: "(string \<Rightarrow> chroma_color option) \<Rightarrow> string \<Rightarrow> string \<Rightarrow> error + real" where
  "chroma_contrast parse a b =
     ebind (chroma parse a) (\<lambda>ka. ebind (chroma parse b) (\<lambda>kb. Inr (contrast ka kb)))"

section \<open>Color analyzer (analyzers/color-analyzer.ts)\<close>

record harmony =
  harmony_type :: string
  harmony_score :: int

definition colorObjects :: "(string \<Rightarrow> chroma_color option) \<Rightarrow> string list \<Rightarrow> chroma_color list" where
  "colorObjects parse colors =
     map (\<lambda>c. case chroma parse c of Inr k \<Rightarrow> k | Inl e \<Rightarrow> Chroma 0 0 0) colors"

definition complementaryScore :: "chroma_color list \<Rightarrow> nat" where
  "complementaryScore cs =
     fold (\<lambda>i score.
       fold (\<lambda>j score.
         let hue1 = or_zero (hsl_h (cs ! i));
             hue2 = or_zero (hsl_h (cs ! j));
             hueDiff = \<bar>fl (hue1 - hue2)\<bar>
         in if hueDiff > 170 \<and> hueDiff < 190 then score + 1 else score)
       [i + 1 ..< length cs] score)
     [0 ..< length cs - 1] 0"

definition checkTriadicHarmony :: "real list \<Rightarrow> nat" where
  "checkTriadicHarmony hues =
     fold (\<lambda>i triadicCount.
       fold (\<lambda>j triadicCount.
         fold (\<lambda>k triadicCount.
           let sortedHues = sort [hues ! i, hues ! j, hues ! k];
               diff1 = fl (sortedHues ! 1 - sortedHues ! 0);
               diff2 = fl (sortedHues ! 2 - sortedHues ! 1);
               diff3 = fl (fl (360 - sortedHues ! 2) + sortedHues ! 0)
           in if \<bar>fl (diff1 - 120)\<bar> < 30 \<and> \<bar>fl (diff2 - 120)\<bar> < 30 \<and> \<bar>fl (diff3 - 120)\<bar> < 30
              then triadicCount + 1 else triadicCount)
         [j + 1 ..< length hues] triadicCount)
       [i + 1 ..< length hues - 1] triadicCount)
     [0 ..< length hues - 2] 0"

definition analyzeColorHarmony ::
  "nat \<Rightarrow> (string \<Rightarrow> chroma_color option) \<Rightarrow> string list \<Rightarrow> error + harmony" where
  "analyzeColorHarmony maxArguments parse colors =
     (if length colors < 2 then Inr \<lparr>harmony_type = ''insufficient_colors'', harmony_score = 0\<rparr>
      else
        let cs = colorObjects parse colors;
            complementary = complementaryScore cs;
            hues = map (\<lambda>c. or_zero (hsl_h c)) cs
        in ebind (math_max maxArguments hues) (\<lambda>maxHue.
           ebind (math_min maxArguments hues) (\<lambda>minHue.
             let hueRange = fl (maxHue - minHue);
                 triadicScore = checkTriadicHarmony hues
             in Inr (if complementary > 0
                     then \<lparr>harmony_type = ''complementary'',
                           harmony_score = min (85 + int complementary * 5) 100\<rparr>
                     else if triadicScore > 0
                     then \<lparr>harmony_type = ''triadic'',
                           harmony_score = min (80 + int triadicScore * 5) 100\<rparr>
                     else if hueRange < 60
                     then \<lparr>harmony_type = ''analogous'', harmony_score = 80\<rparr>
                     else if hueRange < 120
                     then \<lparr>harmony_type = ''split_complementary'', harmony_score = 70\<rparr>
                     else \<lparr>harmony_type = ''mixed'', harmony_score = 60\<rparr>))))"

definition calculateContrast :: "(string \<Rightarrow> chroma_color option) \<Rightarrow> string \<Rightarrow> string \<Rightarrow> real" where
  "calculateContrast parse foreground background =
     (case ebind (chroma parse foreground) (\<lambda>fg.
            ebind (chroma parse background) (\<lambda>bg. Inr (contrast fg bg))) of
        Inr ratio \<Rightarrow> ratio
      | Inl e \<Rightarrow> 1)"

text \<open>
  The hue difference of two palette colours as the code has it: the difference of their
  computed hues, rounded, measured as the shorter of the two arcs between them on the
  circle of 360 degrees; and the palette positions \<open>i < j\<close> it makes complementary.
\<close>

definition angular_distance :: "real \<Rightarrow> real \<Rightarrow> real" where
  "angular_distance h1 h2 = min \<bar>fl (h1 - h2)\<bar> (360 - \<bar>fl (h1 - h2)\<bar>)"

definition palette_hue :: "(string \<Rightarrow> chroma_color option) \<Rightarrow> string list \<Rightarrow> nat \<Rightarrow> real" where
  "palette_hue parse colors i = or_zero (hsl_h (colorObjects parse colors ! i))"

definition complementary_pairs :: "(string \<Rightarrow> chroma_color option) \<Rightarrow> string list \<Rightarrow> (nat \<times> nat) set" where
  "complementary_pairs parse colors =
     {(i, j). i < j \<and> j < length colors \<and>
        170 < angular_distance (palette_hue parse colors i) (palette_hue parse colors j) \<and>
        angular_distance (palette_hue parse colors i) (palette_hue parse colors j) < 190}"

text \<open>
  The hue difference of the specification: the hue of a colour in exact arithmetic, 0 for
  a grey, and the shorter arc between two hues.
\<close>

definition exact_hue :: "chroma_color \<Rightarrow> real" where
  "exact_hue k =
     (let r = channel_r k / 255; g = channel_g k / 255; b = channel_b k / 255;
          minRgb = min r (min g b); maxRgb = max r (max g b)
      in if maxRgb = minRgb then 0
         else
           let h = (if r = maxRgb then (g - b) / (maxRgb - minRgb)
                    else if g = maxRgb then 2 + (b - r) / (maxRgb - minRgb)
                    else 4 + (r - g) / (maxRgb - minRgb))
           in if h * 60 < 0 then h * 60 + 360 else h * 60)"

definition exact_distance :: "real \<Rightarrow> real \<Rightarrow> real" where
  "exact_distance h1 h2 = min \<bar>h1 - h2\<bar> (360 - \<bar>h1 - h2\<bar>)"

section \<open>Accessibility analyzer (analyzers/accessibility-analyzer.ts)\<close>

record contrast_result =
  ratio :: real
  passes_aa :: bool
  passes_aaa :: bool

record contrast_check = contrast_result +
  foreground :: string
  background :: string
  location :: string

record combination_check = contrast_result +
  recommendation :: string

record color_blindness =
  protanopia_safe :: bool
  deuteranopia_safe :: bool
  tritanopia_safe :: bool


text \<open>
  \<open>calculateAccessibilityScore\<close> with the rounding of every operation; the value of the
  score is stated on this version. \<open>averageRatio\<close> is the constant of that name in the
  function, the mean of the ratios as the code accumulates it.
\<close>

definition averageRatio :: "contrast_check list \<Rightarrow> real" where
  "averageRatio contrastChecks =
     fl (fold (\<lambda>check sum. fl (sum + ratio check)) contrastChecks 0
           / real (length contrastChecks))"

definition calculateAccessibilityScore_binary64 :: "contrast_check list \<Rightarrow> color_blindness \<Rightarrow> int" where
  "calculateAccessibilityScore_binary64 contrastChecks colorBlindnessAnalysis =
     (let score = 0;
          score =
            (if length contrastChecks > 0 then
               let aaPassingRate = fl (real (length (filter passes_aa contrastChecks))
                                         / real (length contrastChecks));
                   aaaPassingRate = fl (real (length (filter passes_aaa contrastChecks))
                                         / real (length contrastChecks));
                   score = fl (score + fl (aaPassingRate * 25))
               in fl (score + fl (aaaPassingRate * 15))
             else score);
          colorBlindnessScore =
            length (filter (\<lambda>safe. safe)
              [protanopia_safe colorBlindnessAnalysis,
               deuteranopia_safe colorBlindnessAnalysis,
               tritanopia_safe colorBlindnessAnalysis]);
          score = fl (score + fl (fl (real colorBlindnessScore / 3) * 30));
          score =
            (if length contrastChecks > 0 then
               if averageRatio contrastChecks > 10 then fl (score + 10)
               else if averageRatio contrastChecks > 7 then fl (score + 5)
               else score
             else score)
      in js_round (min score 100))"

definition checkColorCombination :: "(string \<Rightarrow> chroma_color option) \<Rightarrow> string \<Rightarrow> string \<Rightarrow> combination_check" where
  "checkColorCombination parse fg bg =
     (case chroma_contrast parse fg bg of
        Inr r \<Rightarrow>
          let aa = (r \<ge> 4.5); aaa = (r \<ge> 7);
              rec = (if \<not> aa then ''Increase contrast significantly - fails WCAG AA standards''
                     else if \<not> aaa then ''Good contrast for AA, consider increasing for AAA standards''
                     else ''Excellent contrast - meets all WCAG standards'')
          in \<lparr>ratio = r, passes_aa = aa, passes_aaa = aaa, recommendation = rec\<rparr>
      | Inl e \<Rightarrow>
          \<lparr>ratio = 0, passes_aa = False, passes_aaa = False,
           recommendation = ''Invalid color combination''\<rparr>)"

text \<open>
  The quantities of the specification's scoring rule: the fraction of checks with a flag,
  the mean contrast ratio, and the bonus for a high mean; each is 0 on an empty list.
\<close>

definition pass_fraction :: "(contrast_check \<Rightarrow> bool) \<Rightarrow> contrast_check list \<Rightarrow> real" where
  "pass_fraction flag checks =
     (if checks = [] then 0 else real (length (filter flag checks)) / real (length checks))"

definition mean_ratio :: "contrast_check list \<Rightarrow> real" where
  "mean_ratio checks = (if checks = [] then 0 else sum_list (map ratio checks) / real (length checks))"

definition ratio_bonus :: "contrast_check list \<Rightarrow> real" where
  "ratio_bonus checks =
     (if checks = [] then 0 else if mean_ratio checks > 10 then 10
      else if mean_ratio checks > 7 then 5 else 0)"

definition safety_points :: "color_blindness \<Rightarrow> real" where
  "safety_points cb = 10 * of_bool (protanopia_safe cb) + 10 * of_bool (deuteranopia_safe cb)
                        + 10 * of_bool (tritanopia_safe cb)"

text \<open>
  The sum of the specification's scoring rule in exact arithmetic, the bonus decided by
  the mean ratio as the code accumulates it.
\<close>

definition high_ratio_bonus :: "contrast_check list \<Rightarrow> real" where
  "high_ratio_bonus checks =
     (if checks = [] then 0 else if averageRatio checks > 10 then 10
      else if averageRatio checks > 7 then 5 else 0)"

definition exact_points :: "contrast_check list \<Rightarrow> color_blindness \<Rightarrow> real" where
  "exact_points checks cb =
     25 * pass_fraction passes_aa checks + 15 * pass_fraction passes_aaa checks
       + safety_points cb + high_ratio_bonus checks"

section \<open>Typography analyzer (analyzers/typography-analyzer.ts)\<close>

text \<open>
  Text recognition is done by Tesseract, outside the repository: \<open>recognize\<close> is a
  parameter of the model. It throws or returns the recognised words, each with its text,
  its confidence and its bounding box; \<open>data.words\<close> may be missing.
\<close>

record ocr_word =
  ocr_text :: string
  ocr_confidence :: real
  bbox_x0 :: real
  bbox_y0 :: real
  bbox_x1 :: real
  bbox_y1 :: real

record text_region =
  word_text :: string
  word_x :: real
  word_y :: real
  word_width :: real
  word_height :: real
  word_confidence :: real

record TypographyAnalysis =
  font_count :: nat
  hierarchy_score :: nat
  readability_score :: nat
  issues :: "string list"
  text_regions :: "text_region list"

definition extractTextRegions :: "ocr_word list option \<Rightarrow> text_region list" where
  "extractTextRegions words =
     (case words of
        None \<Rightarrow> []
      | Some ws \<Rightarrow>
          map (\<lambda>word. \<lparr>word_text = ocr_text word, word_x = bbox_x0 word, word_y = bbox_y0 word,
                        word_width = bbox_x1 word - bbox_x0 word,
                        word_height = bbox_y1 word - bbox_y0 word,
                        word_confidence = ocr_confidence word\<rparr>)
              (filter (\<lambda>word. ocr_confidence word > 30) ws))"

text \<open>
  A JavaScript \<open>Map\<close> keeps its keys in the order of their first insertion: an
  association list, updated in place by \<open>AList.update\<close>.
\<close>

definition estimateFontCount :: "text_region list \<Rightarrow> nat" where
  "estimateFontCount textRegions =
     (if length textRegions = 0 then 0
      else
        let heightGroups =
              fold (\<lambda>region groups.
                      let height = word_height region;
                          roundedHeight = js_round (height / 5) * 5
                      in AList.update roundedHeight
                           ((case map_of groups roundedHeight of Some n \<Rightarrow> n | None \<Rightarrow> 0) + (1::nat))
                           groups)
                   textRegions [];
            distinctHeights = filter (\<lambda>height. height > 8) (map fst heightGroups)
        in max 1 (min (length distinctHeights) 4))"

text \<open>\<open>[...new Set(values)]\<close>: the values without repetition, in the order of first occurrence.\<close>

definition unique_values :: "'a list \<Rightarrow> 'a list" where
  "unique_values vs = fold (\<lambda>v seen. if v \<in> set seen then seen else seen @ [v]) vs []"

definition analyzeHierarchy :: "text_region list \<Rightarrow> nat" where
  "analyzeHierarchy textRegions =
     (if length textRegions = 0 then 0
      else
        let sortedRegions = sort_key (\<lambda>region. - word_height region) textRegions;
            sizes = map word_height sortedRegions;
            uniqueSizes = unique_values (map (\<lambda>size. js_round (size / 2) * 2) sizes);
            hierarchyScore = (0::nat);
            hierarchyScore = (if length uniqueSizes \<ge> 2 then hierarchyScore + 30 else hierarchyScore);
            hierarchyScore = (if length uniqueSizes \<ge> 3 then hierarchyScore + 20 else hierarchyScore);
            hierarchyScore = (if length uniqueSizes \<ge> 4 then hierarchyScore + 10 else hierarchyScore);
            sizeDifferences = map (\<lambda>i. uniqueSizes ! i - uniqueSizes ! (i + 1))
                                  [0 ..< length uniqueSizes - 1];
            consistentProgression = list_all (\<lambda>diff. diff \<ge> 2) sizeDifferences;
            hierarchyScore = (if consistentProgression then hierarchyScore + 20 else hierarchyScore);
            largestSize = Max (set sizes);
            largestTextCount = length (filter (\<lambda>size. size = largestSize) sizes);
            totalTextCount = length sizes;
            hierarchyScore = (if real largestTextCount / real totalTextCount < 0.3
                              then hierarchyScore + 20 else hierarchyScore)
        in min hierarchyScore 100)"

definition calculateTextDensity :: "text_region list \<Rightarrow> number" where
  "calculateTextDensity textRegions =
     (if length textRegions = 0 then Fin 0
      else
        let totalTextArea = fold (\<lambda>region sum. sum + word_width region * word_height region)
                                 textRegions 0;
            minX = Min (set (map word_x textRegions));
            maxX = Max (set (map (\<lambda>r. word_x r + word_width r) textRegions));
            minY = Min (set (map word_y textRegions));
            maxY = Max (set (map (\<lambda>r. word_y r + word_height r) textRegions));
            boundingBoxArea = (maxX - minX) * (maxY - minY)
        in js_div (Fin totalTextArea) (Fin boundingBoxArea))"

definition calculateLineLengths :: "text_region list \<Rightarrow> nat list" where
  "calculateLineLengths textRegions =
     (let lines =
            fold (\<lambda>region lines.
                    let lineY = js_round (word_y region / 5) * 5;
                        lines = (if map_of lines lineY = None then AList.update lineY [] lines
                                 else lines)
                    in AList.update lineY
                         ((case map_of lines lineY of Some rs \<Rightarrow> rs | None \<Rightarrow> []) @ [region])
                         lines)
                 textRegions []
      in map (\<lambda>(lineY, lineRegions).
                fold (\<lambda>region sum. sum + length (word_text region)) lineRegions 0)
             lines)"

definition analyzeReadability :: "text_region list \<Rightarrow> 'buf \<Rightarrow> nat" where
  "analyzeReadability textRegions imageBuffer =
     (if length textRegions = 0 then 0
      else
        let readabilityScore = (0::nat);
            averageHeight = fold (\<lambda>region sum. sum + word_height region) textRegions 0
                              / real (length textRegions);
            readabilityScore =
              (if averageHeight \<ge> 12 then readabilityScore + 25
               else if averageHeight \<ge> 10 then readabilityScore + 15
               else if averageHeight \<ge> 8 then readabilityScore + 10
               else readabilityScore);
            textDensity = calculateTextDensity textRegions;
            readabilityScore =
              (if js_lt textDensity (Fin 0.7) then readabilityScore + 25
               else if js_lt textDensity (Fin 0.85) then readabilityScore + 15
               else readabilityScore);
            averageConfidence = fold (\<lambda>region sum. sum + word_confidence region) textRegions 0
                                  / real (length textRegions);
            readabilityScore =
              (if averageConfidence \<ge> 80 then readabilityScore + 25
               else if averageConfidence \<ge> 60 then readabilityScore + 15
               else if averageConfidence \<ge> 40 then readabilityScore + 10
               else readabilityScore);
            lineLengths = calculateLineLengths textRegions;
            averageLineLength = js_div (Fin (real (fold (\<lambda>len sum. sum + len) lineLengths 0)))
                                       (Fin (real (length lineLengths)));
            readabilityScore =
              (if js_ge averageLineLength (Fin 30) \<and> js_le averageLineLength (Fin 75)
               then readabilityScore + 25
               else if js_ge averageLineLength (Fin 20) \<and> js_le averageLineLength (Fin 90)
               then readabilityScore + 15
               else readabilityScore)
        in min readabilityScore 100)"

definition identifyIssues :: "text_region list \<Rightarrow> nat \<Rightarrow> nat \<Rightarrow> nat \<Rightarrow> string list" where
  "identifyIssues textRegions fontCount hierarchyScore readabilityScore =
     (let issues = [];
          issues = (if fontCount > 3
                    then issues @ [''Too many different font sizes detected - consider reducing for better consistency'']
                    else issues);
          issues = (if hierarchyScore < 50
                    then issues @ [''Weak typographic hierarchy - consider creating clearer size distinctions'']
                    else issues);
          issues = (if readabilityScore < 60
                    then issues @ [''Text readability could be improved - check font size and contrast'']
                    else issues);
          smallText = filter (\<lambda>region. word_height region < 8) textRegions;
          issues = (if length smallText > 0
                    then issues @ [''Some text appears too small for comfortable reading'']
                    else issues);
          lowConfidenceText = filter (\<lambda>region. word_confidence region < 40) textRegions
      in if real (length lowConfidenceText) > real (length textRegions) * 0.2
         then issues @ [''Some text appears unclear or hard to read'']
         else issues)"

definition analyzeTypography :: "('buf \<Rightarrow> error + ocr_word list option) \<Rightarrow> 'buf \<Rightarrow> TypographyAnalysis" where
  "analyzeTypography recognize imageBuffer =
     (case recognize imageBuffer of
        Inr words \<Rightarrow>
          let textRegions = extractTextRegions words;
              fontCount = estimateFontCount textRegions;
              hierarchyScore = analyzeHierarchy textRegions;
              readabilityScore = analyzeReadability textRegions imageBuffer
          in \<lparr>font_count = fontCount, hierarchy_score = hierarchyScore,
              readability_score = readabilityScore,
              issues = identifyIssues textRegions fontCount hierarchyScore readabilityScore,
              text_regions = textRegions\<rparr>
      | Inl e \<Rightarrow>
          \<lparr>font_count = 2, hierarchy_score = 70, readability_score = 75,
           issues = [''Unable to perform detailed typography analysis''],
           text_regions = []\<rparr>)"

section \<open>Images (Jimp, as the composition analyzer uses it)\<close>

text \<open>
  A decoded image: its dimensions and its bitmap buffer, one RGBA quadruple of bytes per
  pixel, row by row. Decoding (\<open>Jimp.read\<close>) is outside the repository: it is a parameter
  \<open>read\<close> of the model, and throws on a buffer it cannot decode.
\<close>

record rgba =
  red :: "8 word"
  green :: "8 word"
  blue :: "8 word"
  alpha :: "8 word"

record image =
  getWidth :: nat
  getHeight :: nat
  bitmap :: "rgba list"

text \<open>
  \<open>Jimp.intToRGBA(image.getPixelColor(x, y))\<close>. Jimp moves a position outside the image
  to the nearest edge. Reading four bytes at an index outside the buffer throws a range
  error, and so does a read from an image without pixels, whose index is negative.
\<close>

definition getPixelColor :: "image \<Rightarrow> nat \<Rightarrow> nat \<Rightarrow> error + rgba" where
  "getPixelColor img x y =
     (if getWidth img = 0 \<or> getHeight img = 0 then Inl RangeError
      else
        let xi = min x (getWidth img - 1); yi = min y (getHeight img - 1);
            idx = getWidth img * yi + xi
        in if idx < length (bitmap img) then Inr (bitmap img ! idx) else Inl RangeError)"

text \<open>A raster whose buffer holds every pixel its dimensions announce.\<close>

definition well_formed :: "image \<Rightarrow> bool" where
  "well_formed img \<longleftrightarrow> getWidth img * getHeight img \<le> length (bitmap img)"

text \<open>The brightness \<open>(pixel.r + pixel.g + pixel.b) / 3\<close> of the pixel at a position.\<close>

definition brightness :: "rgba \<Rightarrow> real" where
  "brightness pixel = (real (unat (red pixel)) + real (unat (green pixel)) + real (unat (blue pixel))) / 3"

definition brightnessAt :: "image \<Rightarrow> nat \<Rightarrow> nat \<Rightarrow> error + real" where
  "brightnessAt img x y = ebind (getPixelColor img x y) (\<lambda>pixel. Inr (brightness pixel))"

text \<open>
  \<open>image.clone().greyscale()\<close>: Jimp replaces every pixel by a grey of its own luma and
  leaves the dimensions alone. The conversion of one pixel is a parameter \<open>toGrey\<close> of
  the model.
\<close>

definition greyscale :: "(rgba \<Rightarrow> rgba) \<Rightarrow> image \<Rightarrow> image" where
  "greyscale toGrey img = img\<lparr>bitmap := map toGrey (bitmap img)\<rparr>"

section \<open>Composition analyzer (analyzers/composition-analyzer.ts)\<close>

datatype balance = Symmetric | Asymmetric | Radial

record LayoutAnalysis =
  score :: int
  grid_alignment :: bool
  visual_hierarchy :: "string list"
  balance :: balance
  spacing_consistency :: bool
  alignment_score :: int

record region =
  region_x :: nat
  region_y :: nat
  region_width :: nat
  region_height :: nat

record region_analysis = region +
  contrast_of :: real
  brightness_of :: real

record line_spacing =
  consistent :: bool
  averageSpacing :: real

subsection \<open>Line detection and grid alignment\<close>

definition filterCloseLines :: "nat list \<Rightarrow> nat \<Rightarrow> nat list" where
  "filterCloseLines lines minDistance =
     (if length lines = 0 then lines
      else fold (\<lambda>i filtered.
                   if int (lines ! i) - int (last filtered) \<ge> int minDistance
                   then filtered @ [lines ! i] else filtered)
                [1 ..< length lines] [lines ! 0])"

definition detectVerticalLines :: "image \<Rightarrow> error + nat list" where
  "detectVerticalLines img =
     (let width = getWidth img; height = getHeight img; threshold = 30 in
      ebind
        (foldE (\<lambda>x lines.
           ebind
             (foldE (\<lambda>y edgeCount.
                ebind (brightnessAt img x y) (\<lambda>centerBrightness.
                ebind (brightnessAt img (x - 1) y) (\<lambda>leftBrightness.
                ebind (brightnessAt img (x + 1) y) (\<lambda>rightBrightness.
                  Inr (if \<bar>centerBrightness - leftBrightness\<bar> > threshold
                          \<or> \<bar>centerBrightness - rightBrightness\<bar> > threshold
                       then edgeCount + 1 else edgeCount)))))
              [1 ..< height - 1] (0::nat))
             (\<lambda>edgeCount. Inr (if real edgeCount > real height * 0.1 then lines @ [x] else lines)))
         [1 ..< width - 1] [])
        (\<lambda>lines. Inr (filterCloseLines lines 20)))"

definition detectHorizontalLines :: "image \<Rightarrow> error + nat list" where
  "detectHorizontalLines img =
     (let width = getWidth img; height = getHeight img; threshold = 30 in
      ebind
        (foldE (\<lambda>y lines.
           ebind
             (foldE (\<lambda>x edgeCount.
                ebind (brightnessAt img x y) (\<lambda>centerBrightness.
                ebind (brightnessAt img x (y - 1)) (\<lambda>topBrightness.
                ebind (brightnessAt img x (y + 1)) (\<lambda>bottomBrightness.
                  Inr (if \<bar>centerBrightness - topBrightness\<bar> > threshold
                          \<or> \<bar>centerBrightness - bottomBrightness\<bar> > threshold
                       then edgeCount + 1 else edgeCount)))))
              [1 ..< width - 1] (0::nat))
             (\<lambda>edgeCount. Inr (if real edgeCount > real width * 0.1 then lines @ [y] else lines)))
         [1 ..< height - 1] [])
        (\<lambda>lines. Inr (filterCloseLines lines 20)))"

definition analyzeLineSpacing :: "nat list \<Rightarrow> nat \<Rightarrow> line_spacing" where
  "analyzeLineSpacing lines dimension =
     (if length lines < 3 then \<lparr>consistent = False, averageSpacing = 0\<rparr>
      else
        let spacings = map (\<lambda>i. real (lines ! i) - real (lines ! (i - 1))) [1 ..< length lines];
            average = fold (\<lambda>spacing sum. sum + spacing) spacings 0 / real (length spacings);
            variance = fold (\<lambda>spacing sum. sum + (spacing - average) ^ 2) spacings 0
                         / real (length spacings);
            standardDeviation = sqrt variance
        in \<lparr>consistent = (length spacings \<ge> 2 \<and> standardDeviation < average * 0.3),
            averageSpacing = average\<rparr>)"

definition analyzeGridAlignment :: "(rgba \<Rightarrow> rgba) \<Rightarrow> image \<Rightarrow> error + bool" where
  "analyzeGridAlignment toGrey img =
     (let width = getWidth img; height = getHeight img;
          edgeImage = greyscale toGrey img in
      ebind (detectVerticalLines edgeImage) (\<lambda>verticalLines.
      ebind (detectHorizontalLines edgeImage) (\<lambda>horizontalLines.
        let verticalSpacing = analyzeLineSpacing verticalLines width;
            horizontalSpacing = analyzeLineSpacing horizontalLines height
        in Inr (consistent verticalSpacing \<and> consistent horizontalSpacing))))"

subsection \<open>Regions and visual hierarchy\<close>

definition divideIntoRegions :: "image \<Rightarrow> region list" where
  "divideIntoRegions img =
     (let width = getWidth img; height = getHeight img;
          regionWidth = width div 3; regionHeight = height div 3
      in concat (map (\<lambda>row. map (\<lambda>col.
           \<lparr>region_x = col * regionWidth, region_y = row * regionHeight,
            region_width = regionWidth, region_height = regionHeight\<rparr>) [0 ..< 3]) [0 ..< 3]))"

text \<open>
  The positions the two loops over a region visit:
  \<open>for (y = region.y; y < region.y + region.height && y < image.getHeight(); y++)\<close> and
  the same for \<open>x\<close>, row by row.
\<close>

definition region_rows :: "image \<Rightarrow> 'a region_scheme \<Rightarrow> nat list" where
  "region_rows img region = [region_y region ..< min (region_y region + region_height region) (getHeight img)]"

definition region_columns :: "image \<Rightarrow> 'a region_scheme \<Rightarrow> nat list" where
  "region_columns img region = [region_x region ..< min (region_x region + region_width region) (getWidth img)]"

definition region_covers :: "image \<Rightarrow> 'a region_scheme \<Rightarrow> nat \<Rightarrow> nat \<Rightarrow> bool" where
  "region_covers img region x y \<longleftrightarrow>
     x \<in> set (region_columns img region) \<and> y \<in> set (region_rows img region)"

text \<open>The regions of the 3 by 3 partition that cover a position.\<close>

definition covering_regions :: "image \<Rightarrow> nat \<Rightarrow> nat \<Rightarrow> region list" where
  "covering_regions img x y =
     filter (\<lambda>region. region_covers img region x y) (divideIntoRegions img)"

definition region_brightnesses :: "image \<Rightarrow> 'a region_scheme \<Rightarrow> error + real list" where
  "region_brightnesses img region =
     foldE (\<lambda>y brightnesses.
       foldE (\<lambda>x brightnesses.
         ebind (brightnessAt img x y) (\<lambda>b. Inr (brightnesses @ [b])))
       (region_columns img region) brightnesses)
     (region_rows img region) []"

text \<open>
  \<open>Math.max(...brightnesses)\<close> and \<open>Math.min(...brightnesses)\<close> spread the brightness of
  every pixel of the region: beyond the engine's bound on the arguments of a call they
  throw.
\<close>

definition calculateRegionContrast :: "nat \<Rightarrow> image \<Rightarrow> 'a region_scheme \<Rightarrow> error + real" where
  "calculateRegionContrast maxArguments img region =
     ebind (region_brightnesses img region) (\<lambda>brightnesses.
       if length brightnesses = 0 then Inr 0
       else ebind (math_max maxArguments brightnesses) (\<lambda>maximum.
            ebind (math_min maxArguments brightnesses) (\<lambda>minimum.
              Inr (maximum - minimum))))"

definition calculateRegionBrightness :: "image \<Rightarrow> 'a region_scheme \<Rightarrow> error + real" where
  "calculateRegionBrightness img region =
     ebind
       (foldE (\<lambda>y state.
          foldE (\<lambda>x (totalBrightness, pixelCount).
            ebind (brightnessAt img x y) (\<lambda>b. Inr (totalBrightness + b, pixelCount + (1::nat))))
          (region_columns img region) state)
        (region_rows img region) (0, 0))
       (\<lambda>(totalBrightness, pixelCount).
          Inr (if pixelCount > 0 then totalBrightness / real pixelCount else 0))"

definition describeRegionPosition :: "'a region_scheme \<Rightarrow> string" where
  "describeRegionPosition region =
     (let positions = [''top-left'', ''top-center'', ''top-right'',
                       ''middle-left'', ''center'', ''middle-right'',
                       ''bottom-left'', ''bottom-center'', ''bottom-right'']
      in if positions ! 4 \<noteq> [] then positions ! 4 else ''center'')"

definition analyzeVisualHierarchy :: "nat \<Rightarrow> image \<Rightarrow> string \<Rightarrow> error + string list" where
  "analyzeVisualHierarchy maxArguments img design_type =
     (let regions = divideIntoRegions img in
      ebind
        (foldE (\<lambda>region analysed.
           ebind (calculateRegionContrast maxArguments img region) (\<lambda>c.
           ebind (calculateRegionBrightness img region) (\<lambda>b.
             Inr (analysed @ [\<lparr>region_x = region_x region, region_y = region_y region,
                               region_width = region_width region,
                               region_height = region_height region,
                               contrast_of = c, brightness_of = b\<rparr>]))))
         regions [])
        (\<lambda>analysed.
           let regionAnalysis = sort_key (\<lambda>a. - (contrast_of a + brightness_of a)) analysed;
               hierarchy = [];
               hierarchy =
                 (if length regionAnalysis > 0 \<and> contrast_of (regionAnalysis ! 0) > 30
                  then hierarchy @ [''Strong focal point detected in ''
                                      @ describeRegionPosition (regionAnalysis ! 0)]
                  else hierarchy @ [''Balanced composition with no dominant focal point'']);
               hierarchy =
                 (if length regionAnalysis > 1 \<and> contrast_of (regionAnalysis ! 1) > 20
                  then hierarchy @ [''Secondary emphasis in ''
                                      @ describeRegionPosition (regionAnalysis ! 1)]
                  else hierarchy)
           in Inr (if design_type = ''web''
                   then hierarchy @ [''Layout follows web design conventions'']
                   else if design_type = ''mobile''
                   then hierarchy @ [''Vertical flow optimized for mobile viewing'']
                   else if design_type = ''print''
                   then hierarchy @ [''Traditional print layout hierarchy'']
                   else hierarchy)))"

subsection \<open>Balance\<close>

datatype half = LeftHalf | RightHalf

definition getImageHalf :: "image \<Rightarrow> half \<Rightarrow> error + real list" where
  "getImageHalf img half =
     (let width = getWidth img; height = getHeight img; halfWidth = width div 2 in
      foldE (\<lambda>y halfPixels.
        foldE (\<lambda>x halfPixels.
          let sourceX = (if half = LeftHalf then x else width - 1 - x) in
          ebind (brightnessAt img sourceX y) (\<lambda>b. Inr (halfPixels @ [b])))
        [0 ..< halfWidth] halfPixels)
      [0 ..< height] [])"

definition compareImageHalves :: "real list \<Rightarrow> real list \<Rightarrow> number" where
  "compareImageHalves left right =
     (let len = min (length left) (length right);
          totalDifference = fold (\<lambda>i totalDifference. totalDifference + \<bar>left ! i - right ! i\<bar>)
                                 [0 ..< len] 0;
          averageDifference = js_div (Fin totalDifference) (Fin (real len))
      in js_max (Fin 0) (js_sub (Fin 1) (js_div averageDifference (Fin 255))))"

definition calculateRadialVariance :: "image \<Rightarrow> real \<Rightarrow> real \<Rightarrow> real \<Rightarrow> number \<Rightarrow> error + number" where
  "calculateRadialVariance img centerX centerY maxRadius averageBrightness =
     (let width = getWidth img; height = getHeight img in
      ebind
        (foldE (\<lambda>y state.
           foldE (\<lambda>x (variance, count).
             let dx = real x - centerX; dy = real y - centerY;
                 distance = sqrt (dx * dx + dy * dy)
             in if distance \<le> maxRadius
                then ebind (brightnessAt img x y) (\<lambda>b.
                       Inr (js_add variance (js_pow2 (js_sub (Fin b) averageBrightness)),
                            count + (1::nat)))
                else Inr (variance, count))
           [0 ..< width] state)
         [0 ..< height] (Fin 0, 0))
        (\<lambda>(variance, count).
           Inr (if count > 0 then js_div variance (Fin (real count)) else Fin 0)))"

definition analyzeRadialBalance :: "image \<Rightarrow> error + number" where
  "analyzeRadialBalance img =
     (let width = getWidth img; height = getHeight img;
          centerX = real width / 2; centerY = real height / 2;
          maxRadius = min centerX centerY in
      ebind
        (foldE (\<lambda>y state.
           foldE (\<lambda>x (totalWeight, weightedSum).
             let dx = real x - centerX; dy = real y - centerY;
                 distance = sqrt (dx * dx + dy * dy)
             in if distance \<le> maxRadius
                then ebind (brightnessAt img x y) (\<lambda>b.
                       let weight = 1 - distance / maxRadius
                       in Inr (totalWeight + weight, weightedSum + b * weight))
                else Inr (totalWeight, weightedSum))
           [0 ..< width] state)
         [0 ..< height] (0, 0))
        (\<lambda>(totalWeight, weightedSum).
           let averageBrightness = js_div (Fin weightedSum) (Fin totalWeight) in
           ebind (calculateRadialVariance img centerX centerY maxRadius averageBrightness)
             (\<lambda>variance. Inr (js_max (Fin 0) (js_sub (Fin 1) (js_div variance (Fin 10000)))))))"

definition analyzeBalance :: "image \<Rightarrow> error + balance" where
  "analyzeBalance img =
     ebind (getImageHalf img LeftHalf) (\<lambda>leftHalf.
     ebind (getImageHalf img RightHalf) (\<lambda>rightHalf.
       let symmetryScore = compareImageHalves leftHalf rightHalf in
       ebind (analyzeRadialBalance img) (\<lambda>radialScore.
         Inr (if js_gt radialScore (Fin 0.7) then Radial
              else if js_gt symmetryScore (Fin 0.8) then Symmetric
              else Asymmetric))))"

subsection \<open>Spacing\<close>

definition checkLocalSpacing :: "image \<Rightarrow> nat \<Rightarrow> nat \<Rightarrow> error + bool" where
  "checkLocalSpacing img centerX centerY =
     (let radius = 20; width = getWidth img; height = getHeight img in
      ebind
        (foldE (\<lambda>y state.
           foldE (\<lambda>x (whitePixels, totalPixels).
             ebind (brightnessAt img x y) (\<lambda>b.
               Inr (if b > 200 then whitePixels + (1::nat) else whitePixels, totalPixels + (1::nat))))
           [nat (max 0 (int centerX - radius)) ..< nat (min (int width) (int centerX + radius))] state)
         [nat (max 0 (int centerY - radius)) ..< nat (min (int height) (int centerY + radius))] (0, 0))
        (\<lambda>(whitePixels, totalPixels).
           let whiteSpaceRatio = js_div (Fin (real whitePixels)) (Fin (real totalPixels))
           in Inr (js_gt whiteSpaceRatio (Fin 0.3) \<and> js_lt whiteSpaceRatio (Fin 0.8))))"

text \<open>
  The two loops of \<open>analyzeSpacing\<close> step by \<open>Math.floor(width / 10)\<close> and
  \<open>Math.floor(height / 10)\<close>. A step of 0 never leaves the loop: not returning is the
  value \<open>None\<close>.
\<close>

partial_function (option) spacing_columns ::
  "image \<Rightarrow> nat \<Rightarrow> nat \<Rightarrow> nat \<times> nat \<Rightarrow> (error + nat \<times> nat) option" where
  "spacing_columns img y x state =
     (if x < getWidth img then
        (case checkLocalSpacing img x y of
           Inl e \<Rightarrow> Some (Inl e)
         | Inr localSpacing \<Rightarrow>
             spacing_columns img y (x + getWidth img div 10)
               (if localSpacing then fst state + 1 else fst state, snd state + 1))
      else Some (Inr state))"

partial_function (option) spacing_rows ::
  "image \<Rightarrow> nat \<Rightarrow> nat \<times> nat \<Rightarrow> (error + nat \<times> nat) option" where
  "spacing_rows img y state =
     (if y < getHeight img then
        Option.bind (spacing_columns img y 0 state) (\<lambda>r.
          case r of
            Inl e \<Rightarrow> Some (Inl e)
          | Inr state' \<Rightarrow> spacing_rows img (y + getHeight img div 10) state')
      else Some (Inr state))"

definition analyzeSpacing :: "image \<Rightarrow> (error + bool) option" where
  "analyzeSpacing img =
     map_option
       (\<lambda>r. ebind r (\<lambda>(consistentSpacing, totalChecks).
          Inr (totalChecks > 0 \<and> real consistentSpacing / real totalChecks > 0.6)))
       (spacing_rows img 0 (0, 0))"

subsection \<open>Alignment score\<close>

definition calculateLocalContrast :: "nat \<Rightarrow> image \<Rightarrow> nat \<Rightarrow> nat \<Rightarrow> error + real" where
  "calculateLocalContrast maxArguments img centerX centerY =
     (let radius = 10; width = getWidth img; height = getHeight img in
      ebind
        (foldE (\<lambda>y brightnesses.
           foldE (\<lambda>x brightnesses.
             ebind (brightnessAt img x y) (\<lambda>b. Inr (brightnesses @ [b])))
           [nat (max 0 (int centerX - radius)) ..< nat (min (int width) (int centerX + radius))]
           brightnesses)
         [nat (max 0 (int centerY - radius)) ..< nat (min (int height) (int centerY + radius))] [])
        (\<lambda>brightnesses.
           if length brightnesses = 0 then Inr 0
           else ebind (math_max maxArguments brightnesses) (\<lambda>maximum.
                ebind (math_min maxArguments brightnesses) (\<lambda>minimum.
                  Inr (maximum - minimum)))))"

definition checkRuleOfThirds :: "nat \<Rightarrow> image \<Rightarrow> error + real" where
  "checkRuleOfThirds maxArguments img =
     (let width = getWidth img; height = getHeight img;
          verticalThirds = [real width / 3, 2 * real width / 3];
          horizontalThirds = [real height / 3, 2 * real height / 3] in
      ebind
        (foldE (\<lambda>x alignmentScore.
           foldE (\<lambda>y alignmentScore.
             ebind (calculateLocalContrast maxArguments img (nat \<lfloor>x\<rfloor>) (nat \<lfloor>y\<rfloor>)) (\<lambda>contrast.
               Inr (if contrast > 50 then alignmentScore + 5 else alignmentScore)))
           horizontalThirds alignmentScore)
         verticalThirds 0)
        (\<lambda>alignmentScore. Inr (min alignmentScore 30)))"

definition calculateAlignmentScore :: "nat \<Rightarrow> image \<Rightarrow> error + int" where
  "calculateAlignmentScore maxArguments img =
     (let width = getWidth img; height = getHeight img; score = (0::real) in
      ebind (detectVerticalLines img) (\<lambda>verticalLines.
      ebind (detectHorizontalLines img) (\<lambda>horizontalLines.
        let score = (if length verticalLines \<ge> 2 then score + 25 else score);
            score = (if length horizontalLines \<ge> 2 then score + 25 else score);
            aspectRatio = js_div (Fin (real width)) (Fin (real height));
            commonRatios = [16 / 9, 4 / 3, 3 / 2, 5 / 4, 1.618];
            score = (if list_ex (\<lambda>ratio. js_lt (js_abs (js_sub aspectRatio (Fin ratio))) (Fin 0.1))
                                commonRatios
                     then score + 20 else score)
        in ebind (checkRuleOfThirds maxArguments img) (\<lambda>ruleOfThirdsScore.
             let score = score + ruleOfThirdsScore
             in Inr (js_round (max 0 (min 100 score)))))))"

subsection \<open>Overall composition\<close>

record composition_factors =
  gridAlignment :: bool
  balanceFactor :: balance
  spacingConsistency :: bool
  alignmentScore :: int

definition calculateCompositionScore :: "composition_factors \<Rightarrow> int" where
  "calculateCompositionScore factors =
     (let score = (0::real);
          score = (if gridAlignment factors then score + 25 else score);
          score = (case balanceFactor factors of
                     Symmetric \<Rightarrow> score + 25
                   | Radial \<Rightarrow> score + 23
                   | Asymmetric \<Rightarrow> score + 20);
          score = (if spacingConsistency factors then score + 25 else score);
          score = score + (real_of_int (alignmentScore factors) / 100) * 25
      in js_round score)"

text \<open>
  The body of the \<open>try\<close> block of \<open>analyzeComposition\<close>: \<open>None\<close> when it does not
  return, \<open>Inl\<close> when it throws.
\<close>

definition analyzeComposition_try ::
  "('buf \<Rightarrow> error + image) \<Rightarrow> (rgba \<Rightarrow> rgba) \<Rightarrow> nat \<Rightarrow> 'buf \<Rightarrow> string
     \<Rightarrow> (error + LayoutAnalysis) option" where
  "analyzeComposition_try read toGrey maxArguments imageBuffer design_type =
     (case read imageBuffer of
        Inl e \<Rightarrow> Some (Inl e)
      | Inr img \<Rightarrow>
     (case analyzeGridAlignment toGrey img of
        Inl e \<Rightarrow> Some (Inl e)
      | Inr grid \<Rightarrow>
     (case analyzeVisualHierarchy maxArguments img design_type of
        Inl e \<Rightarrow> Some (Inl e)
      | Inr visualHierarchy \<Rightarrow>
     (case analyzeBalance img of
        Inl e \<Rightarrow> Some (Inl e)
      | Inr bal \<Rightarrow>
     (case analyzeSpacing img of
        None \<Rightarrow> None
      | Some (Inl e) \<Rightarrow> Some (Inl e)
      | Some (Inr spacing) \<Rightarrow>
     (case calculateAlignmentScore maxArguments img of
        Inl e \<Rightarrow> Some (Inl e)
      | Inr alignment \<Rightarrow>
          Some (Inr \<lparr>score = calculateCompositionScore
                               \<lparr>gridAlignment = grid, balanceFactor = bal,
                                spacingConsistency = spacing, alignmentScore = alignment\<rparr>,
                     grid_alignment = grid, visual_hierarchy = visualHierarchy,
                     balance = bal, spacing_consistency = spacing,
                     alignment_score = alignment\<rparr>)))))))"

definition degraded_layout :: LayoutAnalysis where
  "degraded_layout =
     \<lparr>score = 50, grid_alignment = False, visual_hierarchy = [''Unable to analyze hierarchy''],
      balance = Asymmetric, spacing_consistency = False, alignment_score = 50\<rparr>"

definition analyzeComposition ::
  "('buf \<Rightarrow> error + image) \<Rightarrow> (rgba \<Rightarrow> rgba) \<Rightarrow> nat \<Rightarrow> 'buf \<Rightarrow> string
     \<Rightarrow> LayoutAnalysis option" where
  "analyzeComposition read toGrey maxArguments imageBuffer design_type =
     map_option (\<lambda>outcome. case outcome of Inr analysis \<Rightarrow> analysis | Inl e \<Rightarrow> degraded_layout)
       (analyzeComposition_try read toGrey maxArguments imageBuffer design_type)"

section \<open>Example inputs\<close>

text \<open>A parser that reads two hex strings, pure red and cyan, and nothing else.\<close>

definition red_cyan :: "string \<Rightarrow> chroma_color option" where
  "red_cyan s = (if s = ''#FF0000'' then Some (Chroma 255 0 0)
                 else if s = ''#00FFFF'' then Some (Chroma 0 255 255) else None)"

text \<open>A parser that reads black and the dark teal \<open>#1c2221\<close>.\<close>

definition black_teal :: "string \<Rightarrow> chroma_color option" where
  "black_teal s = (if s = ''#000000'' then Some (Chroma 0 0 0)
                   else if s = ''#1c2221'' then Some (Chroma 28 34 33) else None)"

text \<open>
  Two lists of contrast checks with the same length, the same share of AAA passes and the
  same mean ratio; the second has more AA passes.
\<close>

definition example_checks_1 :: "contrast_check list" where
  "example_checks_1 =
     [\<lparr>ratio = 4, passes_aa = False, passes_aaa = False,
       foreground = ''#767676'', background = ''#1a1a1a'', location = ''Color combination 1-2''\<rparr>,
      \<lparr>ratio = 8, passes_aa = True, passes_aaa = True,
       foreground = ''#767676'', background = ''#ffffff'', location = ''Color combination 1-3''\<rparr>]"


definition example_safety :: color_blindness where
  "example_safety = \<lparr>protanopia_safe = True, deuteranopia_safe = False, tritanopia_safe = True\<rparr>"

text \<open>
  The 36 contrast checks of a palette of nine colours: one pair passes AA and AAA, two
  more pass AA, and no deficiency is safe.
\<close>

definition few_passes :: "contrast_check list" where
  "few_passes =
     \<lparr>ratio = 8, passes_aa = True, passes_aaa = True,
      foreground = ''#1a1a1a'', background = ''#d0d0d0'', location = ''Color combination 1-9''\<rparr>
     # replicate 2
         \<lparr>ratio = 5, passes_aa = True, passes_aaa = False,
          foreground = ''#1a1a1a'', background = ''#a0a0a0'', location = ''Color combination 1-8''\<rparr>
     @ replicate 33
         \<lparr>ratio = 2, passes_aa = False, passes_aaa = False,
          foreground = ''#707070'', background = ''#a0a0a0'', location = ''Color combination 2-8''\<rparr>"

definition no_safety :: color_blindness where
  "no_safety = \<lparr>protanopia_safe = False, deuteranopia_safe = False, tritanopia_safe = False\<rparr>"

text \<open>A raster of one colour, and a colour to fill it with.\<close>

definition solid :: "nat \<Rightarrow> nat \<Rightarrow> rgba \<Rightarrow> image" where
  "solid w h c = \<lparr>getWidth = w, getHeight = h, bitmap = replicate (w * h) c\<rparr>"

definition white :: rgba where
  "white = \<lparr>red = 255, green = 255, blue = 255, alpha = 255\<rparr>"

text \<open>
  Jimp's grey conversion: the luma 0.2126 * red + 0.7152 * green + 0.0722 * blue, computed
  in binary64 and truncated, in the three colour channels.
\<close>

definition luma :: "rgba \<Rightarrow> rgba" where
  "luma pixel =
     (let grey = word_of_nat (nat \<lfloor>fl (fl (fl (fl 0.2126 * real (unat (red pixel)))
                                              + fl (fl 0.7152 * real (unat (green pixel))))
                                          + fl (fl 0.0722 * real (unat (blue pixel))))\<rfloor>)
      in pixel\<lparr>red := grey, green := grey, blue := grey\<rparr>)"

text \<open>
  Three decoders: one that throws, one that returns a raster whose buffer is shorter than
  its dimensions say, and one that returns a white raster of 10 by 10 pixels.
\<close>

definition undecodable :: "8 word list \<Rightarrow> error + image" where
  "undecodable buffer = Inl DecodeError"

definition truncated_raster :: "8 word list \<Rightarrow> error + image" where
  "truncated_raster buffer = Inr \<lparr>getWidth = 3, getHeight = 3, bitmap = [white, white]\<rparr>"

definition white_raster :: "8 word list \<Rightarrow> error + image" where
  "white_raster buffer = Inr (solid 10 10 white)"

text \<open>A recogniser that finds one word, with too little confidence to count.\<close>

definition faint_word :: ocr_word where
  "faint_word = \<lparr>ocr_text = ''l'', ocr_confidence = 12, bbox_x0 = 4, bbox_y0 = 4,
                 bbox_x1 = 6, bbox_y1 = 15\<rparr>"

definition faint_words :: "8 word list \<Rightarrow> error + ocr_word list option" where
  "faint_words buffer = Inr (Some [faint_word])"

section \<open>Verified properties\<close>

subsection \<open>Computations that may throw\<close>

lemma ebind_Inl [simp]: "ebind (Inl e) f = Inl e"
  by (simp add: ebind_def)

lemma ebind_Inr [simp]: "ebind (Inr v) f = f v"
  by (simp add: ebind_def)

lemma yields_Inr [simp]: "yields (Inr v) P \<longleftrightarrow> P v"
  by (simp add: yields_def)

lemma yields_Inl [simp]: "\<not> yields (Inl e) P"
  by (simp add: yields_def)

lemma yields_eq: "r = Inr v \<longleftrightarrow> yields r (\<lambda>u. u = v)"
  by (cases r) simp_all

lemma yieldsE: "yields r P \<Longrightarrow> (\<And>v. r = Inr v \<Longrightarrow> P v \<Longrightarrow> Q) \<Longrightarrow> Q"
  by (cases r) simp_all

lemma yields_weaken: "yields r P \<Longrightarrow> (\<And>v. P v \<Longrightarrow> Q v) \<Longrightarrow> yields r Q"
  by (cases r) simp_all

lemma yields_ebind: "yields m (\<lambda>v. yields (f v) P) \<Longrightarrow> yields (ebind m f) P"
  by (cases m) simp_all

lemma yields_if:
  "(c \<Longrightarrow> yields a P) \<Longrightarrow> (\<not> c \<Longrightarrow> yields b P) \<Longrightarrow> yields (if c then a else b) P"
  by simp

lemma yields_foldE:
  assumes "I s"
    and "\<And>v s. v \<in> set vs \<Longrightarrow> I s \<Longrightarrow> yields (f v s) I"
  shows "yields (foldE f vs s) I"
  using assms
proof (induction vs arbitrary: s)
  case Nil
  then show ?case by simp
next
  case (Cons v vs)
  from Cons.prems have "yields (f v s) I" by simp
  then obtain s' where s': "f v s = Inr s'" "I s'" by (rule yieldsE)
  from Cons.prems(2) have "yields (foldE f vs s') I"
    by (intro Cons.IH s'(2)) simp
  with s'(1) show ?case by simp
qed

lemma yields_foldE_prefix:
  assumes "I [] s"
    and "\<And>pre v post s. vs = pre @ v # post \<Longrightarrow> I pre s \<Longrightarrow> yields (f v s) (I (pre @ [v]))"
  shows "yields (foldE f vs s) (I vs)"
proof -
  have "I pre s \<Longrightarrow> vs = pre @ rest \<Longrightarrow> yields (foldE f rest s) (I vs)" for pre rest s
  proof (induction rest arbitrary: pre s)
    case Nil
    then show ?case by simp
  next
    case (Cons v rest)
    from Cons.prems have "yields (f v s) (I (pre @ [v]))" by (intro assms(2)) simp_all
    then obtain s' where s': "f v s = Inr s'" "I (pre @ [v]) s'" by (rule yieldsE)
    from Cons.prems(2) have "yields (foldE f rest s') (I vs)"
      by (intro Cons.IH [OF s'(2)]) simp
    with s'(1) show ?case by simp
  qed
  from this [of "[]" s vs] assms(1) show ?thesis by simp
qed

subsection \<open>Rounding to binary64\<close>

text \<open>
  The rounding is within half a unit in the last place; a number with a significand of 53
  bits is its own rounding; and the rounding of a number is determined by the integer
  nearest to its significand.
\<close>

lemma round_even_error: "\<bar>of_int (round_even y) - y\<bar> \<le> 1 / 2"
  unfolding round_even_def Let_def by (auto simp: abs_if) linarith+

lemma round_even_near:
  assumes "\<bar>y - of_int m\<bar> < 1 / 2"
  shows "round_even y = m"
proof -
  have "\<lfloor>y\<rfloor> = m \<or> \<lfloor>y\<rfloor> = m - 1" using assms by (auto simp: abs_if split: if_splits) linarith+
  then show ?thesis
    using assms unfolding round_even_def Let_def
    by (auto simp: abs_if split: if_splits) 
qed

lemma round_even_tie:
  assumes "\<bar>y - of_int m\<bar> = 1 / 2" "even m"
  shows "round_even y = m"
proof -
  have "y = of_int m + 1 / 2 \<or> y = of_int m - 1 / 2" using assms(1) by (auto simp: abs_if split: if_splits)
  then show ?thesis
  proof
    assume y: "y = of_int m + 1 / 2"
    then have "\<lfloor>y\<rfloor> = m" by linarith
    then show ?thesis using y assms(2) by (simp add: round_even_def Let_def)
  next
    assume y: "y = of_int m - 1 / 2"
    then have "\<lfloor>y\<rfloor> = m - 1" by linarith
    then show ?thesis using y assms(2) by (simp add: round_even_def Let_def)
  qed
qed

lemma round_even_of_int [simp]: "round_even (of_int m) = m"
  by (rule round_even_near) simp

lemma two_powi_pos [simp]: "(0::real) < 2 powi e"
  by (simp add: power_int_def)

lemma two_powr_powi: "(2::real) powr of_int k = 2 powi k"
  by (simp add: powr_real_of_int power_int_def inverse_eq_divide power_one_over)

lemma floor_log2_iff:
  fixes x :: real
  assumes "x > 0"
  shows "\<lfloor>log 2 x\<rfloor> = k \<longleftrightarrow> 2 powi k \<le> x \<and> x < 2 powi (k + 1)"
  using floor_log_eq_powr_iff [of x 2 k] assms
  unfolding two_powr_powi [symmetric] by simp

lemma two_powi_log:
  fixes x :: real
  assumes "x > 0"
  shows "2 powi \<lfloor>log 2 x\<rfloor> \<le> x" "x < 2 powi (\<lfloor>log 2 x\<rfloor> + 1)"
  using floor_log2_iff [OF assms, of "\<lfloor>log 2 x\<rfloor>"] by simp_all

lemma floor_log2_eq:
  fixes x :: real
  assumes "2 powi k \<le> x" "x < 2 powi (k + 1)"
  shows "\<lfloor>log 2 x\<rfloor> = k"
proof -
  have "x > 0" using assms(1) two_powi_pos [of k] by linarith
  then show ?thesis using floor_log2_iff [of x k] assms by simp
qed

lemma two_powi_neg: "(2::real) powi (- int n) = 1 / 2 ^ n"
  by (simp add: power_int_def inverse_eq_divide power_one_over)

lemma two_powi_diff: "(2::real) powi (a - b) = 2 powi a / 2 powi b"
  by (simp add: power_int_diff)

lemma two_powi_mono: "a \<le> b \<Longrightarrow> (2::real) powi a \<le> 2 powi b"
  by (rule power_int_increasing) simp_all

lemma fl_cert:
  assumes lo: "2 ^ 52 \<le> \<bar>x\<bar> * 2 ^ n" and hi: "\<bar>x\<bar> * 2 ^ n < 2 ^ 53" and n: "n \<le> 1074"
    and m: "round_even (x * 2 ^ n) = m" and y: "y = of_int m / 2 ^ n"
  shows "fl x = y"
proof -
  have x: "x \<noteq> 0" using lo by auto
  have eq: "(2::real) powi (52 - int n) = 2 ^ 52 / 2 ^ n" by (simp add: two_powi_diff)
  have "2 ^ 52 / 2 ^ n \<le> \<bar>x\<bar>" using lo by (simp add: pos_divide_le_eq)
  then have "2 powi (52 - int n) \<le> \<bar>x\<bar>" by (simp only: eq)
  moreover have "\<bar>x\<bar> < 2 powi (52 - int n + 1)"
  proof -
    have "52 - int n + 1 = 53 - int n" by simp
    then have eq: "(2::real) powi (52 - int n + 1) = 2 ^ 53 / 2 ^ n" by (simp add: two_powi_diff)
    have "\<bar>x\<bar> < 2 ^ 53 / 2 ^ n" using hi by (simp add: pos_less_divide_eq)
    then show ?thesis by (simp only: eq)
  qed
  ultimately have "\<lfloor>log 2 \<bar>x\<bar>\<rfloor> = 52 - int n" by (rule floor_log2_eq)
  then have e: "ulp_exponent x = - int n" using n by (simp add: ulp_exponent_def)
  show ?thesis using x m by (simp add: fl_def e two_powi_neg y)
qed

lemma fl_zero [simp]: "fl 0 = 0"
  by (simp add: fl_def)

lemma fl_error:
  assumes "\<bar>x\<bar> \<le> 2 ^ j"
  shows "\<bar>fl x - x\<bar> \<le> 2 ^ j / 2 ^ 53"
proof (cases "x = 0")
  case True then show ?thesis by simp
next
  case False
  define e where "e = ulp_exponent x"
  have pos: "\<bar>x\<bar> > 0" using False by simp
  have "2 powi \<lfloor>log 2 \<bar>x\<bar>\<rfloor> \<le> \<bar>x\<bar>" using two_powi_log(1) [OF pos] .
  then have "2 powi \<lfloor>log 2 \<bar>x\<bar>\<rfloor> \<le> (2::real) powi int j" using assms by simp
  then have "\<lfloor>log 2 \<bar>x\<bar>\<rfloor> \<le> int j"
    by (rule power_int_le_imp_le_exp [rotated]) simp_all
  then have "e \<le> int j - 52" by (simp add: e_def ulp_exponent_def)
  then have "(2::real) powi e \<le> 2 powi (int j - 52)" by (rule two_powi_mono)
  also have "\<dots> = 2 ^ j / 2 ^ 52" by (simp add: two_powi_diff)
  finally have ulp: "(2::real) powi e \<le> 2 ^ j / 2 ^ 52" .
  have "fl x - x = (of_int (round_even (x / 2 powi e)) - x / 2 powi e) * 2 powi e"
    using False by (simp add: fl_def e_def field_simps)
  then have "\<bar>fl x - x\<bar> = \<bar>of_int (round_even (x / 2 powi e)) - x / 2 powi e\<bar> * 2 powi e"
    by (simp add: abs_mult)
  also have "\<dots> \<le> 1 / 2 * 2 powi e"
    by (rule mult_right_mono [OF round_even_error]) simp
  also have "\<dots> \<le> 1 / 2 * (2 ^ j / 2 ^ 52)" using ulp by simp
  also have "\<dots> = 2 ^ j / 2 ^ 53" by simp
  finally show ?thesis .
qed


lemma fl_exact:
  assumes m: "\<bar>m\<bar> < 2 ^ 53" and n: "n \<le> 1074" and x: "x = of_int m / 2 ^ n"
  shows "fl x = x"
proof (cases "m = 0")
  case True then show ?thesis using x by simp
next
  case False
  define e where "e = ulp_exponent x"
  have x0: "x \<noteq> 0" using False x by simp
  then have pos: "\<bar>x\<bar> > 0" by simp
  have "\<bar>x\<bar> = \<bar>of_int m\<bar> / 2 ^ n" using x by (simp add: abs_divide)
  also have "\<dots> < 2 ^ 53 / 2 ^ n"
  proof -
    have "\<bar>real_of_int m\<bar> < 2 ^ 53" using m by (metis of_int_abs of_int_less_numeral_power_cancel_iff)
    then show ?thesis by (simp add: divide_strict_right_mono)
  qed
  also have "\<dots> = 2 powi (53 - int n)" by (simp add: two_powi_diff)
  finally have "\<bar>x\<bar> < 2 powi (53 - int n)" .
  with two_powi_log(1) [OF pos] have "2 powi \<lfloor>log 2 \<bar>x\<bar>\<rfloor> < (2::real) powi (53 - int n)" by linarith
  then have "\<lfloor>log 2 \<bar>x\<bar>\<rfloor> < 53 - int n"
    by (metis not_less power_int_increasing one_le_numeral)
  then have e: "e \<le> - int n" using n by (simp add: e_def ulp_exponent_def)
  define k where "k = nat (- int n - e)"
  have ek: "e = - int n - int k" using e by (simp add: k_def)
  have "2 powi e = 1 / ((2::real) ^ n * 2 ^ k)"
    unfolding ek by (simp add: two_powi_diff two_powi_neg)
  then have scaled: "x / 2 powi e = of_int (m * 2 ^ k)" using x by simp
  have "fl x = of_int (round_even (x / 2 powi e)) * 2 powi e"
    using x0 by (simp add: fl_def e_def)
  also have "\<dots> = x / 2 powi e * 2 powi e" unfolding scaled round_even_of_int ..
  also have "\<dots> = x" by simp
  finally show ?thesis .
qed

lemma fl_of_int: "\<bar>i\<bar> < 2 ^ 53 \<Longrightarrow> fl (of_int i) = of_int i"
  by (rule fl_exact [where m = i and n = 0]) simp_all

lemma fl_numeral [simp]: "(numeral k :: int) < 2 ^ 53 \<Longrightarrow> fl (numeral k) = numeral k"
  using fl_of_int [of "numeral k"] by simp

lemma fl_one [simp]: "fl 1 = 1"
  using fl_of_int [of 1] by simp

text \<open>The rounding is monotone on the numbers that are not negative.\<close>

lemma round_even_mono:
  assumes "a \<le> b"
  shows "round_even a \<le> round_even b"
proof (rule ccontr)
  assume "\<not> round_even a \<le> round_even b"
  then have gt: "round_even b + 1 \<le> round_even a" by simp
  then have "real_of_int (round_even b) + 1 \<le> real_of_int (round_even a)"
    by (metis of_int_1 of_int_add of_int_le_iff)
  moreover have "\<bar>of_int (round_even a) - a\<bar> \<le> 1 / 2" "\<bar>of_int (round_even b) - b\<bar> \<le> 1 / 2"
    by (rule round_even_error)+
  ultimately have eq: "a = b" using assms by linarith
  with gt show False by simp
qed

lemma ulp_exponent_mono:
  assumes "0 < x" "x \<le> y"
  shows "ulp_exponent x \<le> ulp_exponent y"
proof -
  have "log 2 x \<le> log 2 y" using assms by simp
  then have "\<lfloor>log 2 x\<rfloor> \<le> \<lfloor>log 2 y\<rfloor>" by (rule floor_mono)
  then show ?thesis using assms by (simp add: ulp_exponent_def)
qed

lemma fl_mono_pos:
  assumes "0 < x" "x \<le> y"
  shows "fl x \<le> fl y"
proof -
  define e where "e = ulp_exponent x"
  define f where "f = ulp_exponent y"
  have y: "0 < y" using assms by simp
  have ef: "e \<le> f" unfolding e_def f_def using assms by (rule ulp_exponent_mono)
  have flx: "fl x = of_int (round_even (x / 2 powi e)) * 2 powi e"
    using assms(1) by (simp add: fl_def e_def)
  have fly: "fl y = of_int (round_even (y / 2 powi f)) * 2 powi f"
    using y by (simp add: fl_def f_def)
  show ?thesis
  proof (cases "e = f")
    case True
    have "x / 2 powi e \<le> y / 2 powi e" using assms(2) by (simp add: divide_right_mono)
    then have "round_even (x / 2 powi e) \<le> round_even (y / 2 powi e)" by (rule round_even_mono)
    then show ?thesis unfolding flx fly True [symmetric] by simp
  next
    case False
    with ef have lt: "e < f" by simp
    then have fnorm: "f = \<lfloor>log 2 y\<rfloor> - 52" using y
      by (simp add: f_def e_def ulp_exponent_def max_def split: if_splits)
    have xe: "\<lfloor>log 2 x\<rfloor> - 52 \<le> e" using assms(1) by (simp add: e_def ulp_exponent_def)
    define k where "k = nat (f - e)"
    have k: "f = e + int k" using lt by (simp add: k_def)
    have pw: "(2::real) powi f = 2 powi e * 2 ^ k"
      unfolding k by (simp add: power_int_add)
    have "2 powi (f + 52) \<le> y"
      using two_powi_log(1) [OF y] unfolding fnorm by simp
    then have "2 ^ 52 \<le> y / 2 powi f"
      by (simp add: power_int_add pos_le_divide_eq mult.commute)
    then have "real_of_int (2 ^ 52) \<le> y / 2 powi f" by simp
    then have "round_even (real_of_int (2 ^ 52)) \<le> round_even (y / 2 powi f)"
      by (rule round_even_mono)
    then have "2 ^ 52 \<le> round_even (y / 2 powi f)" unfolding round_even_of_int .
    then have "real_of_int (2 ^ 52) \<le> real_of_int (round_even (y / 2 powi f))"
      unfolding of_int_le_iff .
    then have upper: "2 ^ 52 * 2 powi f \<le> fl y" unfolding fly by simp
    have "\<lfloor>log 2 x\<rfloor> + 1 \<le> f + 52" using xe lt by simp
    then have "(2::real) powi (\<lfloor>log 2 x\<rfloor> + 1) \<le> 2 powi (f + 52)" by (rule two_powi_mono)
    with two_powi_log(2) [OF assms(1)] have "x \<le> 2 powi (f + 52)" by linarith
    then have "x \<le> 2 powi e * (2 ^ k * 2 ^ 52)"
      unfolding k by (simp add: power_int_add mult.assoc)
    then have "x / 2 powi e \<le> real_of_int (2 ^ k * 2 ^ 52)"
      by (simp add: pos_divide_le_eq mult.commute)
    then have "round_even (x / 2 powi e) \<le> round_even (real_of_int (2 ^ k * 2 ^ 52))"
      by (rule round_even_mono)
    then have "round_even (x / 2 powi e) \<le> 2 ^ k * 2 ^ 52" unfolding round_even_of_int .
    then have "real_of_int (round_even (x / 2 powi e)) \<le> real_of_int (2 ^ k * 2 ^ 52)"
      unfolding of_int_le_iff .
    then have "fl x \<le> real_of_int (2 ^ k * 2 ^ 52) * 2 powi e"
      unfolding flx by (simp add: mult_right_mono)
    also have "\<dots> = 2 ^ 52 * 2 powi f" unfolding pw by simp
    finally show ?thesis using upper by linarith
  qed
qed

lemma fl_nonneg: "0 \<le> x \<Longrightarrow> 0 \<le> fl x"
proof -
  assume "0 \<le> x"
  then have "0 \<le> x / 2 powi ulp_exponent x" by simp
  then have "real_of_int 0 \<le> x / 2 powi ulp_exponent x" by simp
  then have "round_even (real_of_int 0) \<le> round_even (x / 2 powi ulp_exponent x)"
    by (rule round_even_mono)
  then have "0 \<le> round_even (x / 2 powi ulp_exponent x)" unfolding round_even_of_int .
  then show ?thesis by (simp add: fl_def)
qed

lemma fl_mono_nonneg:
  assumes "0 \<le> x" "x \<le> y"
  shows "fl x \<le> fl y"
proof (cases "x = 0")
  case True
  then show ?thesis using assms fl_nonneg [of y] by simp
next
  case False
  with assms show ?thesis by (intro fl_mono_pos) simp_all
qed

text \<open>The rounding is odd, and monotone on all numbers.\<close>

lemma round_even_tie_even:
  assumes "\<bar>y - of_int (round_even y)\<bar> = 1 / 2"
  shows "even (round_even y)"
proof -
  define n where "n = \<lfloor>y\<rfloor>"
  define r where "r = y - of_int n"
  have r: "0 \<le> r" "r < 1" unfolding r_def n_def by linarith+
  have y: "y = of_int n + r" by (simp add: r_def)
  have res: "round_even y = (if r < 1 / 2 then n else if r > 1 / 2 then n + 1
                               else if even n then n else n + 1)"
    by (simp add: round_even_def n_def r_def)
  show ?thesis
  proof (cases "r < 1 / 2")
    case True
    with res have "round_even y = n" by simp
    with assms y r True show ?thesis by simp
  next
    case False
    show ?thesis
    proof (cases "r > 1 / 2")
      case True
      with res False have "round_even y = n + 1" by simp
      with assms y r True show ?thesis by simp
    next
      case notgt: False
      with res False show ?thesis by simp
    qed
  qed
qed

lemma round_even_minus: "round_even (- y) = - round_even y"
proof (cases "\<bar>y - of_int (round_even y)\<bar> < 1 / 2")
  case True
  moreover have "- y - of_int (- round_even y) = - (y - of_int (round_even y))" by simp
  ultimately have "\<bar>- y - of_int (- round_even y)\<bar> < 1 / 2" by (simp only: abs_minus)
  then show ?thesis by (rule round_even_near)
next
  case False
  moreover have "\<bar>of_int (round_even y) - y\<bar> \<le> 1 / 2" by (rule round_even_error)
  ultimately have tie: "\<bar>y - of_int (round_even y)\<bar> = 1 / 2" by linarith
  then have "even (- round_even y)" using round_even_tie_even by simp
  moreover have "- y - of_int (- round_even y) = - (y - of_int (round_even y))" by simp
  then have "\<bar>- y - of_int (- round_even y)\<bar> = 1 / 2" using tie by (simp only: abs_minus)
  ultimately show ?thesis by (intro round_even_tie)
qed

lemma fl_minus: "fl (- x) = - fl x"
  by (simp add: fl_def ulp_exponent_def round_even_minus)

lemma fl_mono:
  assumes "x \<le> y"
  shows "fl x \<le> fl y"
proof (cases "0 \<le> x")
  case True
  then show ?thesis using assms by (rule fl_mono_nonneg)
next
  case False
  show ?thesis
  proof (cases "0 \<le> y")
    case True
    have "0 \<le> fl (- x)" using False by (intro fl_nonneg) simp
    then have "fl x \<le> 0" by (simp add: fl_minus)
    also have "0 \<le> fl y" using True by (rule fl_nonneg)
    finally show ?thesis .
  next
    case neg: False
    have "fl (- y) \<le> fl (- x)" using assms neg by (intro fl_mono_nonneg) simp_all
    then show ?thesis by (simp add: fl_minus)
  qed
qed

lemma fl_abs: "\<bar>fl x\<bar> = fl \<bar>x\<bar>"
proof (cases "0 \<le> x")
  case True
  then show ?thesis using fl_nonneg [of x] by simp
next
  case False
  then have "0 \<le> fl (- x)" by (intro fl_nonneg) simp
  then show ?thesis using False by (simp add: fl_minus)
qed

lemma fl_near_512:
  assumes "- 512 \<le> x" "x \<le> 512"
  shows "x - 1 / 2 ^ 44 \<le> fl x" "fl x \<le> x + 1 / 2 ^ 44"
proof -
  have "\<bar>x\<bar> \<le> 2 ^ 9" using assms by simp
  from fl_error [OF this] have "\<bar>fl x - x\<bar> \<le> 1 / 2 ^ 44" by simp
  then show "x - 1 / 2 ^ 44 \<le> fl x" "fl x \<le> x + 1 / 2 ^ 44" by linarith+
qed

lemma round_near_ratio:
  fixes A :: int and D :: nat and T :: real
  assumes D: "0 < D" and near: "\<bar>T - of_int A / real D\<bar> < 1 / (2 * real D)"
  shows "js_round T = js_round (of_int A / real D)
         \<or> (frac (real_of_int A / real D) = 1 / 2 \<and> js_round T = js_round (of_int A / real D) - 1)"
proof -
  define E :: real where "E = of_int A / real D"
  define q where "q = \<lfloor>E + 1 / 2\<rfloor>"
  define d where "d = real D"
  have d: "0 < d" "1 \<le> d" using D by (simp_all add: d_def)
  have small: "1 / (2 * d) \<le> 1 / 2" using d by (simp add: field_simps)
  have Ed: "E * d = of_int A" using d by (simp add: E_def d_def)
  have q: "of_int q \<le> E + 1 / 2" "E + 1 / 2 < of_int q + 1" unfolding q_def by linarith+
  have "of_int q * (2 * d) \<le> (E + 1 / 2) * (2 * d)"
    using q(1) d by (intro mult_right_mono) simp_all
  then have "real_of_int q * (2 * d) \<le> 2 * of_int A + d" using Ed by (simp add: algebra_simps)
  then have "real_of_int (2 * int D * q) \<le> real_of_int (2 * A + int D)"
    unfolding d_def by (simp add: algebra_simps)
  then have lo: "2 * int D * q \<le> 2 * A + int D" unfolding of_int_le_iff .
  have "(E + 1 / 2) * (2 * d) < (of_int q + 1) * (2 * d)"
    using q(2) d by (intro mult_strict_right_mono) simp_all
  then have "2 * of_int A + d < real_of_int q * (2 * d) + 2 * d" using Ed by (simp add: algebra_simps)
  then have "real_of_int (2 * A + int D) < real_of_int (2 * int D * q + 2 * int D)"
    unfolding d_def by (simp add: algebra_simps)
  then have hi: "2 * A + int D < 2 * int D * q + 2 * int D" unfolding of_int_less_iff .
  have T: "E - 1 / (2 * d) < T" "T < E + 1 / (2 * d)"
    using near unfolding E_def d_def by linarith+
  show ?thesis
  proof (cases "2 * A + int D = 2 * int D * q")
    case True
    then have "real_of_int (2 * A + int D) = real_of_int (2 * int D * q)" by simp
    then have "2 * of_int A + d = 2 * d * of_int q" unfolding d_def by simp
    then have "2 * (E * d) + d = 2 * d * of_int q" by (simp only: Ed)
    then have "(2 * E + 1) * d = (2 * of_int q) * d" by (simp add: algebra_simps)
    then have "2 * E + 1 = 2 * of_int q" using d by simp
    then have E: "E = of_int q - 1 / 2" by simp
    then have "E = of_int (q - 1) + 1 / 2" by simp
    then have "\<lfloor>E\<rfloor> = q - 1" by linarith
    then have fr: "frac E = 1 / 2" using E by (simp add: frac_def)
    have "\<lfloor>T + 1 / 2\<rfloor> = q \<or> \<lfloor>T + 1 / 2\<rfloor> = q - 1" using T E small by linarith
    then show ?thesis using fr unfolding js_round_def E_def [symmetric] q_def [symmetric] by auto
  next
    case False
    then have "2 * int D * q + 1 \<le> 2 * A + int D" "2 * A + int D \<le> 2 * int D * q + 2 * int D - 1"
      using lo hi by simp_all
    then have "real_of_int (2 * int D * q + 1) \<le> real_of_int (2 * A + int D)"
      "real_of_int (2 * A + int D) \<le> real_of_int (2 * int D * q + 2 * int D - 1)"
      unfolding of_int_le_iff by simp_all
    then have "2 * d * of_int q + 1 \<le> (2 * E + 1) * d" "(2 * E + 1) * d \<le> 2 * d * of_int q + 2 * d - 1"
      using Ed unfolding d_def by (simp_all add: algebra_simps)
    then have "(of_int q + 1 / (2 * d)) * (2 * d) \<le> (E + 1 / 2) * (2 * d)"
      "(E + 1 / 2) * (2 * d) \<le> (of_int q + 1 - 1 / (2 * d)) * (2 * d)"
      using d by (simp_all add: algebra_simps)
    then have "of_int q + 1 / (2 * d) \<le> E + 1 / 2" "E + 1 / 2 \<le> of_int q + 1 - 1 / (2 * d)"
      using d by simp_all
    then have "\<lfloor>T + 1 / 2\<rfloor> = q" using T by linarith
    then show ?thesis unfolding js_round_def E_def [symmetric] q_def [symmetric] by simp
  qed
qed

subsection \<open>Score aggregation\<close>

text \<open>The weights, as binary64 numbers.\<close>

lemma fl_025: "fl 0.25 = 1 / 4"
  by (rule fl_cert [where n = 54 and m = "4503599627370496"]) (simp_all add: round_even_near)

lemma fl_030: "fl 0.30 = 5404319552844595 / 2 ^ 54"
  by (rule fl_cert [where n = 54 and m = "5404319552844595"]) (simp_all add: round_even_near)

lemma fl_020: "fl 0.20 = 3602879701896397 / 2 ^ 54"
  by (rule fl_cert [where n = 55 and m = "7205759403792794"]) (simp_all add: round_even_near)

text \<open>
  The sum that \<open>calculateOverallScore\<close> accumulates is within \<open>1 / 40\<close> of the exact
  weighted sum, which is a multiple of \<open>1 / 20\<close>.
\<close>

lemma total_near:
  fixes c p t a :: nat
  assumes "c \<le> 100" "p \<le> 100" "t \<le> 100" "a \<le> 100"
  shows "\<bar>fold (\<lambda>(score, weight) totalScore. fl (totalScore + fl (score * weight)))
            (score_entries \<lparr>color = real c, composition = real p, typography = real t,
                             accessibility = real a\<rparr>) 0
          - real_of_int (5 * int c + 6 * int p + 5 * int t + 4 * int a) / 20\<bar> < 1 / 40"
proof -
  define C P T A where "C = real c" and "P = real p" and "T = real t" and "A = real a"
  have b: "0 \<le> C" "C \<le> 100" "0 \<le> P" "P \<le> 100" "0 \<le> T" "T \<le> 100" "0 \<le> A" "A \<le> 100"
    using assms by (simp_all add: C_def P_def T_def A_def)
  define x1 where "x1 = fl (C * (1 / 4))"
  define s1 where "s1 = fl (0 + x1)"
  define x2 where "x2 = fl (P * (5404319552844595 / 2 ^ 54))"
  define s2 where "s2 = fl (s1 + x2)"
  define x3 where "x3 = fl (T * (1 / 4))"
  define s3 where "s3 = fl (s2 + x3)"
  define x4 where "x4 = fl (A * (3602879701896397 / 2 ^ 54))"
  define s4 where "s4 = fl (s3 + x4)"
  have x1: "C * (1 / 4) - 1 / 2 ^ 44 \<le> x1" "x1 \<le> C * (1 / 4) + 1 / 2 ^ 44"
    unfolding x1_def by (rule fl_near_512; use b in simp)+
  have s1: "0 + x1 - 1 / 2 ^ 44 \<le> s1" "s1 \<le> 0 + x1 + 1 / 2 ^ 44"
    unfolding s1_def by (rule fl_near_512; use b x1 in simp)+
  have x2: "P * (5404319552844595 / 2 ^ 54) - 1 / 2 ^ 44 \<le> x2"
    "x2 \<le> P * (5404319552844595 / 2 ^ 54) + 1 / 2 ^ 44"
    unfolding x2_def by (rule fl_near_512; use b in simp)+
  have s2: "s1 + x2 - 1 / 2 ^ 44 \<le> s2" "s2 \<le> s1 + x2 + 1 / 2 ^ 44"
    unfolding s2_def by (rule fl_near_512; use b x1 s1 x2 in simp)+
  have x3: "T * (1 / 4) - 1 / 2 ^ 44 \<le> x3" "x3 \<le> T * (1 / 4) + 1 / 2 ^ 44"
    unfolding x3_def by (rule fl_near_512; use b in simp)+
  have s3: "s2 + x3 - 1 / 2 ^ 44 \<le> s3" "s3 \<le> s2 + x3 + 1 / 2 ^ 44"
    unfolding s3_def by (rule fl_near_512; use b x1 s1 x2 s2 x3 in simp)+
  have x4: "A * (3602879701896397 / 2 ^ 54) - 1 / 2 ^ 44 \<le> x4"
    "x4 \<le> A * (3602879701896397 / 2 ^ 54) + 1 / 2 ^ 44"
    unfolding x4_def by (rule fl_near_512; use b in simp)+
  have s4: "s3 + x4 - 1 / 2 ^ 44 \<le> s4" "s4 \<le> s3 + x4 + 1 / 2 ^ 44"
    unfolding s4_def by (rule fl_near_512; use b x1 s1 x2 s2 x3 s3 x4 in simp)+
  have total: "fold (\<lambda>(score, weight) totalScore. fl (totalScore + fl (score * weight)))
            (score_entries \<lparr>color = real c, composition = real p, typography = real t,
                             accessibility = real a\<rparr>) 0 = s4"
    by (simp only: score_entries_def weights_def module_scores.simps score_weights.simps
          fold_simps case_prod_conv fl_025 fl_030 fl_020
          s4_def x4_def s3_def x3_def s2_def x2_def s1_def x1_def C_def P_def T_def A_def)
  have exact: "real_of_int (5 * int c + 6 * int p + 5 * int t + 4 * int a) / 20
        = C / 4 + 3 * P / 10 + T / 4 + A / 5"
    by (simp add: C_def P_def T_def A_def)
  have "C / 4 + 3 * P / 10 + T / 4 + A / 5 - 1 / 40 < s4"
    using b x1 s1 x2 s2 x3 s3 x4 s4 by simp
  moreover have "s4 < C / 4 + 3 * P / 10 + T / 4 + A / 5 + 1 / 40"
    using b x1 s1 x2 s2 x3 s3 x4 s4 by simp
  ultimately show ?thesis unfolding total exact abs_less_iff by linarith
qed

text \<open>
  C5, as the code has it. For module scores that are integers from 0 to 100, as the four
  modules return them, the overall score is the weighted sum 0.25 * color harmony +
  0.30 * composition + 0.25 * typography hierarchy + 0.20 * accessibility rounded to the
  nearest integer, unless that sum lies exactly halfway between two integers: there the
  score is the sum rounded up or one less, because the code accumulates the sum in
  binary64.
\<close>

theorem overall_score_weighted_sum:
  fixes c p t a :: nat
  assumes "c \<le> 100" "p \<le> 100" "t \<le> 100" "a \<le> 100"
  shows "calculateOverallScore
           \<lparr>color = real c, composition = real p, typography = real t, accessibility = real a\<rparr>
         = round (weighted_sum
             \<lparr>color = real c, composition = real p, typography = real t, accessibility = real a\<rparr>)
       \<or> (frac (weighted_sum
             \<lparr>color = real c, composition = real p, typography = real t, accessibility = real a\<rparr>)
             = 1 / 2
          \<and> calculateOverallScore
               \<lparr>color = real c, composition = real p, typography = real t, accessibility = real a\<rparr>
             = round (weighted_sum
                 \<lparr>color = real c, composition = real p, typography = real t,
                  accessibility = real a\<rparr>) - 1)"
proof -
  let ?scores = "\<lparr>color = real c, composition = real p, typography = real t, accessibility = real a\<rparr>"
  let ?N = "5 * int c + 6 * int p + 5 * int t + 4 * int a"
  have exact: "weighted_sum ?scores = real_of_int ?N / real 20"
    by (simp add: weighted_sum_def)
  have "\<bar>fold (\<lambda>(score, weight) totalScore. fl (totalScore + fl (score * weight)))
            (score_entries ?scores) 0 - real_of_int ?N / real 20\<bar> < 1 / (2 * real 20)"
    using total_near [OF assms] by simp
  from round_near_ratio [OF _ this]
  show ?thesis
    unfolding exact calculateOverallScore_def Let_def js_round_def round_def by simp
qed

theorem overall_score_weighted_sum_witness:
  "(85::nat) \<le> 100 \<and> (50::nat) \<le> 100 \<and> (70::nat) \<le> 100
   \<and> weighted_sum \<lparr>color = 85, composition = 50, typography = 70, accessibility = 50\<rparr>
       = 63.75
   \<and> calculateOverallScore \<lparr>color = 85, composition = 50, typography = 70, accessibility = 50\<rparr>
       = 64"
proof -
  have exact: "weighted_sum \<lparr>color = 85, composition = 50, typography = 70, accessibility = 50\<rparr>
                 = 63.75"
    by (simp add: weighted_sum_def)
  have "round (63.75 :: real) = 64" "frac (63.75 :: real) \<noteq> 1 / 2"
    by (simp_all add: round_def frac_def)
  with overall_score_weighted_sum [of 85 50 70 50] exact show ?thesis by simp
qed

text \<open>
  C5 as the specification states it fails on the scores 80, 62, 50 and 42. Their weighted
  sum is 59.5, which rounds to 60; the code accumulates 59.49999999999999 and returns 59.
\<close>

theorem overall_score_below_tie:
  "calculateOverallScore \<lparr>color = 80, composition = 62, typography = 50, accessibility = 42\<rparr>
     = 59
   \<and> round (weighted_sum \<lparr>color = 80, composition = 62, typography = 50, accessibility = 42\<rparr>)
     = 60"
proof -
  have x1: "fl (80 * (1 / 4)) = 20"
    by (rule fl_cert [where n = 48 and m = "5629499534213120"]) (simp_all add: round_even_near)
  have s1: "fl (0 + 20) = 20"
    by (rule fl_cert [where n = 48 and m = "5629499534213120"]) (simp_all add: round_even_near)
  have x2: "fl (62 * (5404319552844595 / 2 ^ 54)) = 5235434566818201 / 2 ^ 48"
    by (rule fl_cert [where n = 48 and m = "5235434566818201"]) (simp_all add: round_even_near)
  have s2: "fl (20 + 5235434566818201 / 2 ^ 48) = 1358116762628915 / 2 ^ 45"
    by (rule fl_cert [where n = 47 and m = "5432467050515660"]) (simp_all add: round_even_tie)
  have x3: "fl (50 * (1 / 4)) = 25 / 2"
    by (rule fl_cert [where n = 49 and m = "7036874417766400"]) (simp_all add: round_even_near)
  have s3: "fl (1358116762628915 / 2 ^ 45 + 25 / 2) = 1797921413739315 / 2 ^ 45"
    by (rule fl_cert [where n = 47 and m = "7191685654957260"]) (simp_all add: round_even_near)
  have x4: "fl (42 * (3602879701896397 / 2 ^ 54)) = 4728779608739021 / 2 ^ 49"
    by (rule fl_cert [where n = 49 and m = "4728779608739021"]) (simp_all add: round_even_near)
  have s4: "fl (1797921413739315 / 2 ^ 45 + 4728779608739021 / 2 ^ 49) = 8373880557142015 / 2 ^ 47"
    by (rule fl_cert [where n = 47 and m = "8373880557142015"]) (simp_all add: round_even_near)
  have "fold (\<lambda>(score, weight) totalScore. fl (totalScore + fl (score * weight)))
          (score_entries \<lparr>color = 80, composition = 62, typography = 50, accessibility = 42\<rparr>) 0
        = 8373880557142015 / 2 ^ 47"
    by (simp only: score_entries_def weights_def module_scores.simps score_weights.simps
          fold_simps case_prod_conv fl_025 fl_030 fl_020 x1 s1 x2 s2 x3 s3 x4 s4)
  then have "calculateOverallScore \<lparr>color = 80, composition = 62, typography = 50, accessibility = 42\<rparr>
               = js_round (8373880557142015 / 2 ^ 47)"
    by (simp only: calculateOverallScore_def Let_def)
  then show ?thesis
    by (simp add: weighted_sum_def js_round_def round_def)
qed

subsection \<open>Colour harmony\<close>

lemma hue_test_iff:
  "(170 < \<bar>fl (a - b)\<bar> \<and> \<bar>fl (a - b)\<bar> < 190)
     \<longleftrightarrow> (170 < angular_distance a b \<and> angular_distance a b < 190)"
  by (auto simp: angular_distance_def)

lemma fold_count: "fold (\<lambda>x s. if Q x then s + 1 else s) xs (s::nat) = s + length (filter Q xs)"
  by (induction xs arbitrary: s) auto

lemma fold_add: "fold (\<lambda>x s. s + g x) xs (s::nat) = s + sum_list (map g xs)"
  by (induction xs arbitrary: s) auto

lemma length_filter_upt: "length (filter Q [a..<b]) = card {j. a \<le> j \<and> j < b \<and> Q j}"
proof -
  have "distinct (filter Q [a..<b])" by simp
  then have "card (set (filter Q [a..<b])) = length (filter Q [a..<b])"
    by (rule distinct_card)
  moreover have "set (filter Q [a..<b]) = {j. a \<le> j \<and> j < b \<and> Q j}" by auto
  ultimately show ?thesis by simp
qed

lemma pair_count_card:
  "fold (\<lambda>i s. fold (\<lambda>j s. if C i j then s + 1 else s) [i + 1 ..< n] s) [0 ..< n - 1] (0::nat)
     = card {(i, j). i < j \<and> j < n \<and> C i j}"
proof -
  let ?B = "\<lambda>i. {j. i + 1 \<le> j \<and> j < n \<and> C i j}"
  have "fold (\<lambda>i s. fold (\<lambda>j s. if C i j then s + 1 else s) [i + 1 ..< n] s) [0 ..< n - 1] (0::nat)
          = fold (\<lambda>i s. s + card (?B i)) [0 ..< n - 1] 0"
    by (simp add: fold_count length_filter_upt)
  also have "\<dots> = sum_list (map (\<lambda>i. card (?B i)) [0 ..< n - 1])"
    by (simp add: fold_add)
  also have "\<dots> = (\<Sum>i \<in> {0 ..< n - 1}. card (?B i))"
    by (simp add: interv_sum_list_conv_sum_set_nat)
  also have "\<dots> = card (SIGMA i : {0 ..< n - 1}. ?B i)"
    by (subst card_SigmaI) auto
  also have "(SIGMA i : {0 ..< n - 1}. ?B i) = {(i, j). i < j \<and> j < n \<and> C i j}"
    by auto
  finally show ?thesis .
qed

lemma length_colorObjects [simp]: "length (colorObjects parse colors) = length colors"
  by (simp add: colorObjects_def)

lemma complementaryScore_card:
  "complementaryScore (colorObjects parse colors) = card (complementary_pairs parse colors)"
  unfolding complementaryScore_def Let_def length_colorObjects complementary_pairs_def
    palette_hue_def hue_test_iff
  by (rule pair_count_card)

lemma finite_complementary_pairs: "finite (complementary_pairs parse colors)"
proof -
  have "complementary_pairs parse colors \<subseteq> {0 ..< length colors} \<times> {0 ..< length colors}"
    by (auto simp: complementary_pairs_def)
  then show ?thesis by (rule finite_subset) simp
qed

lemma hues_spread:
  assumes "length colors \<le> maxArguments"
  shows "math_max maxArguments (map f (colorObjects parse colors))
           = Inr (Max (set (map f (colorObjects parse colors))))"
    and "math_min maxArguments (map f (colorObjects parse colors))
           = Inr (Min (set (map f (colorObjects parse colors))))"
  using assms by (simp_all add: math_max_def math_min_def spread_def)

text \<open>
  The rounding of the difference of two hues moves the bounds 170 and 190 by less than
  one unit in the last place, \<open>1 / 2 ^ 45\<close>.
\<close>

lemma above_170: "fl (170 + 1 / 2 ^ 45) = 170 + 1 / 2 ^ 45"
  by (rule fl_cert [where n = 45 and m = "5981343255101441"]) (simp_all add: round_even_near)

lemma below_190: "fl (190 - 1 / 2 ^ 45) = 190 - 1 / 2 ^ 45"
  by (rule fl_cert [where n = 45 and m = "6685030696878079"]) (simp_all add: round_even_near)

lemma rounded_window_exact:
  assumes "170 < \<bar>fl d\<bar>" "\<bar>fl d\<bar> < 190"
  shows "170 < \<bar>d\<bar>" "\<bar>d\<bar> < 190"
proof -
  show "170 < \<bar>d\<bar>"
  proof (rule ccontr)
    assume "\<not> 170 < \<bar>d\<bar>"
    then have "fl \<bar>d\<bar> \<le> fl 170" by (intro fl_mono) simp
    with assms(1) show False by (simp add: fl_abs)
  qed
  show "\<bar>d\<bar> < 190"
  proof (rule ccontr)
    assume "\<not> \<bar>d\<bar> < 190"
    then have "fl 190 \<le> fl \<bar>d\<bar>" by (intro fl_mono) simp
    with assms(2) show False by (simp add: fl_abs)
  qed
qed

lemma exact_window_rounded:
  assumes "170 + 1 / 2 ^ 45 \<le> \<bar>d\<bar>" "\<bar>d\<bar> \<le> 190 - 1 / 2 ^ 45"
  shows "170 < \<bar>fl d\<bar>" "\<bar>fl d\<bar> < 190"
proof -
  have "fl (170 + 1 / 2 ^ 45) \<le> fl \<bar>d\<bar>" using assms(1) by (rule fl_mono)
  then show "170 < \<bar>fl d\<bar>" unfolding above_170 fl_abs by simp
  have "fl \<bar>d\<bar> \<le> fl (190 - 1 / 2 ^ 45)" using assms(2) by (rule fl_mono)
  then show "\<bar>fl d\<bar> < 190" unfolding below_190 fl_abs by simp
qed

lemma arc_window:
  "(170 < \<bar>d\<bar> \<and> \<bar>d\<bar> < 190) \<longleftrightarrow> (170 < min \<bar>d\<bar> (360 - \<bar>d\<bar>) \<and> min \<bar>d\<bar> (360 - \<bar>d\<bar>) < 190)"
  for d :: real
  by auto

lemma complementary_pair_exact_distance:
  assumes "(i, j) \<in> complementary_pairs parse colors"
  shows "170 < exact_distance (palette_hue parse colors i) (palette_hue parse colors j)"
    and "exact_distance (palette_hue parse colors i) (palette_hue parse colors j) < 190"
proof -
  let ?d = "palette_hue parse colors i - palette_hue parse colors j"
  from assms have "170 < \<bar>fl ?d\<bar> \<and> \<bar>fl ?d\<bar> < 190"
    unfolding complementary_pairs_def hue_test_iff [symmetric] by simp
  then have "170 < \<bar>?d\<bar> \<and> \<bar>?d\<bar> < 190"
    using rounded_window_exact [of ?d] by simp
  then show "170 < exact_distance (palette_hue parse colors i) (palette_hue parse colors j)"
    and "exact_distance (palette_hue parse colors i) (palette_hue parse colors j) < 190"
    unfolding exact_distance_def arc_window [symmetric] by simp_all
qed

lemma exact_distance_complementary_pair:
  assumes "i < j" "j < length colors"
    and "170 + 1 / 2 ^ 45
           \<le> exact_distance (palette_hue parse colors i) (palette_hue parse colors j)"
    and "exact_distance (palette_hue parse colors i) (palette_hue parse colors j)
           \<le> 190 - 1 / 2 ^ 45"
  shows "(i, j) \<in> complementary_pairs parse colors"
proof -
  let ?d = "palette_hue parse colors i - palette_hue parse colors j"
  from assms(3,4) have "170 + 1 / 2 ^ 45 \<le> \<bar>?d\<bar> \<and> \<bar>?d\<bar> \<le> 190 - 1 / 2 ^ 45"
    unfolding exact_distance_def by (auto simp: min_def split: if_splits)
  then have "170 < \<bar>fl ?d\<bar> \<and> \<bar>fl ?d\<bar> < 190"
    using exact_window_rounded [of ?d] by simp
  then show ?thesis
    using assms(1,2) unfolding complementary_pairs_def hue_test_iff [symmetric] by simp
qed

text \<open>
  C3, as the code has it. For a palette of at least two colours, and of no more colours
  than the engine takes arguments, \<open>analyzeColorHarmony\<close> answers \<open>complementary\<close>
  exactly when some pair of palette positions has hues, as chroma-js computes them in
  binary64, whose rounded difference lies strictly between 170 and 190 degrees, measured
  as the shorter arc. The score is then the minimum of 85 + 5 * (number of such pairs) and
  100, whatever the triadic count and the hue range are. The hue of a grey, and of a
  colour that cannot be parsed, is 0.
\<close>

theorem complementary_classification:
  assumes "2 \<le> length colors" "length colors \<le> maxArguments"
  shows "\<exists>h. analyzeColorHarmony maxArguments parse colors = Inr h
            \<and> (harmony_type h = ''complementary'' \<longleftrightarrow> complementary_pairs parse colors \<noteq> {})
            \<and> (complementary_pairs parse colors \<noteq> {} \<longrightarrow>
                 harmony_score h = min (85 + 5 * int (card (complementary_pairs parse colors))) 100)"
proof -
  have pos: "0 < complementaryScore (colorObjects parse colors)
               \<longleftrightarrow> complementary_pairs parse colors \<noteq> {}"
    by (simp add: complementaryScore_card card_gt_0_iff finite_complementary_pairs)
  from assms have big: "\<not> length colors < 2" by simp
  show ?thesis
    using pos
    by (simp add: analyzeColorHarmony_def Let_def big hues_spread [OF assms(2)]
          complementaryScore_card mult.commute)
qed

text \<open>The hues of cyan and of pure red are 180 and 0, in binary64 as in exact arithmetic.\<close>

lemma cyan_red_pairs: "complementary_pairs red_cyan [''#00FFFF'', ''#FF0000''] = {(0, 1)}"
proof -
  have h0: "palette_hue red_cyan [''#00FFFF'', ''#FF0000''] 0 = 180"
    by (simp add: palette_hue_def colorObjects_def chroma_def red_cyan_def hsl_h_def or_zero_def)
  have h1: "palette_hue red_cyan [''#00FFFF'', ''#FF0000''] 1 = 0"
    by (simp add: palette_hue_def colorObjects_def chroma_def red_cyan_def hsl_h_def or_zero_def)
  have "170 < angular_distance (palette_hue red_cyan [''#00FFFF'', ''#FF0000''] 0)
                (palette_hue red_cyan [''#00FFFF'', ''#FF0000''] 1)
        \<and> angular_distance (palette_hue red_cyan [''#00FFFF'', ''#FF0000''] 0)
                (palette_hue red_cyan [''#00FFFF'', ''#FF0000''] 1) < 190"
    unfolding h0 h1 by (simp add: angular_distance_def)
  then have "(0, 1) \<in> complementary_pairs red_cyan [''#00FFFF'', ''#FF0000'']"
    by (simp add: complementary_pairs_def)
  moreover have "complementary_pairs red_cyan [''#00FFFF'', ''#FF0000''] \<subseteq> {(0, 1)}"
    by (auto simp: complementary_pairs_def)
  ultimately show ?thesis by blast
qed

theorem complementary_classification_witness:
  "2 \<le> length [''#00FFFF'', ''#FF0000''] \<and> length [''#00FFFF'', ''#FF0000''] \<le> (65535::nat)
   \<and> complementary_pairs red_cyan [''#00FFFF'', ''#FF0000''] \<noteq> {}
   \<and> (\<exists>h. analyzeColorHarmony 65535 red_cyan [''#00FFFF'', ''#FF0000''] = Inr h
          \<and> harmony_type h = ''complementary'' \<and> harmony_score h = 90)"
proof -
  have two: "2 \<le> length [''#00FFFF'', ''#FF0000'']"
    "length [''#00FFFF'', ''#FF0000''] \<le> (65535::nat)" by simp_all
  show ?thesis
    using complementary_classification [OF two, of red_cyan] two
    by (simp add: cyan_red_pairs)
qed

text \<open>
  C3 as the specification states it fails on the palette of black and \<open>#1c2221\<close>. The
  hue of \<open>#1c2221\<close> is 170 degrees and black counts as 0, so the two hues are exactly
  170 degrees apart, not strictly between 170 and 190; chroma-js computes the hue
  170.00000000000003, and the code answers \<open>complementary\<close> with the score 90.
\<close>

lemma teal_hue: "hsl_h (Chroma 28 34 33) = Fin (5981343255101441 / 2 ^ 45)"
proof -
  have r: "fl (28 / 255) = 1978051601041159 / 2 ^ 54"
    by (rule fl_cert [where n = 56 and m = "7912206404164636"]) (simp_all add: round_even_near)
  have g: "fl (34 / 255) = 4803839602528529 / 2 ^ 55"
    by (rule fl_cert [where n = 55 and m = "4803839602528529"]) (simp_all add: round_even_near)
  have b: "fl (33 / 255) = 4662550202454161 / 2 ^ 55"
    by (rule fl_cert [where n = 55 and m = "4662550202454161"]) (simp_all add: round_even_near)
  have mn: "min (1978051601041159 / 2 ^ 54) (min (4803839602528529 / 2 ^ 55) (4662550202454161 / 2 ^ 55))
              = (1978051601041159 / 2 ^ 54 :: real)" by simp
  have mx: "max (1978051601041159 / 2 ^ 54) (max (4803839602528529 / 2 ^ 55) (4662550202454161 / 2 ^ 55))
              = (4803839602528529 / 2 ^ 55 :: real)" by simp
  have ne: "((4803839602528529 / 2 ^ 55 :: real) = 1978051601041159 / 2 ^ 54) = False"
    "((1978051601041159 / 2 ^ 54 :: real) = 4803839602528529 / 2 ^ 55) = False" by simp_all
  have br: "fl (4662550202454161 / 2 ^ 55 - 1978051601041159 / 2 ^ 54) = 706447000371843 / 2 ^ 55"
    by (rule fl_cert [where n = 58 and m = "5651576002974744"]) (simp_all add: round_even_near)
  have gr: "fl (4803839602528529 / 2 ^ 55 - 1978051601041159 / 2 ^ 54) = 847736400446211 / 2 ^ 55"
    by (rule fl_cert [where n = 58 and m = "6781891203569688"]) (simp_all add: round_even_near)
  have q: "fl ((706447000371843 / 2 ^ 55) / (847736400446211 / 2 ^ 55)) = 469124961184427 / 2 ^ 49"
    by (rule fl_cert [where n = 53 and m = "7505999378950832"]) (simp_all add: round_even_near)
  have h: "fl (2 + 469124961184427 / 2 ^ 49) = 1595024868027051 / 2 ^ 49"
    by (rule fl_cert [where n = 51 and m = "6380099472108204"]) (simp_all add: round_even_near)
  have h60: "fl (1595024868027051 / 2 ^ 49 * 60) = 5981343255101441 / 2 ^ 45"
    by (rule fl_cert [where n = 45 and m = "5981343255101441"]) (simp_all add: round_even_near)
  have nonneg: "((5981343255101441 / 2 ^ 45 :: real) < 0) = False" by simp
  show ?thesis
    by (simp only: hsl_h_def Let_def chroma_color.sel r g b mn mx ne if_False refl if_True
          br gr q h h60 nonneg)
qed

lemma black_hue: "hsl_h (Chroma 0 0 0) = NaN"
  by (simp add: hsl_h_def)

lemma black_teal_pairs: "complementary_pairs black_teal [''#000000'', ''#1c2221''] = {(0, 1)}"
proof -
  have d: "fl (0 - 5981343255101441 / 2 ^ 45) = - (5981343255101441 / 2 ^ 45)"
    by (rule fl_cert [where n = 45 and m = "- 5981343255101441"]) (simp_all add: round_even_near)
  have h0: "palette_hue black_teal [''#000000'', ''#1c2221''] 0 = 0"
    by (simp add: palette_hue_def colorObjects_def chroma_def black_teal_def black_hue or_zero_def)
  have h1: "palette_hue black_teal [''#000000'', ''#1c2221''] 1 = 5981343255101441 / 2 ^ 45"
    by (simp add: palette_hue_def colorObjects_def chroma_def black_teal_def teal_hue or_zero_def)
  have ad: "angular_distance 0 (5981343255101441 / 2 ^ 45) = 5981343255101441 / 2 ^ 45"
    unfolding angular_distance_def d by simp
  have "170 < angular_distance (palette_hue black_teal [''#000000'', ''#1c2221''] 0)
                (palette_hue black_teal [''#000000'', ''#1c2221''] 1)
        \<and> angular_distance (palette_hue black_teal [''#000000'', ''#1c2221''] 0)
                (palette_hue black_teal [''#000000'', ''#1c2221''] 1) < 190"
    unfolding h0 h1 ad by simp
  then have "(0, 1) \<in> complementary_pairs black_teal [''#000000'', ''#1c2221'']"
    by (simp add: complementary_pairs_def)
  moreover have "complementary_pairs black_teal [''#000000'', ''#1c2221''] \<subseteq> {(0, 1)}"
    by (auto simp: complementary_pairs_def)
  ultimately show ?thesis by blast
qed

theorem black_teal_complementary:
  "analyzeColorHarmony 65535 black_teal [''#000000'', ''#1c2221'']
     = Inr \<lparr>harmony_type = ''complementary'', harmony_score = 90\<rparr>
   \<and> exact_distance (exact_hue (Chroma 0 0 0)) (exact_hue (Chroma 28 34 33)) = 170"
proof -
  have score: "complementaryScore (colorObjects black_teal [''#000000'', ''#1c2221'']) = 1"
    by (simp add: complementaryScore_card black_teal_pairs)
  have len: "length [''#000000'', ''#1c2221''] \<le> (65535::nat)" by simp
  have "analyzeColorHarmony 65535 black_teal [''#000000'', ''#1c2221'']
          = Inr \<lparr>harmony_type = ''complementary'', harmony_score = 90\<rparr>"
    by (simp add: analyzeColorHarmony_def Let_def hues_spread [OF len] score)
  moreover have "exact_distance (exact_hue (Chroma 0 0 0)) (exact_hue (Chroma 28 34 33)) = 170"
    by (simp add: exact_distance_def exact_hue_def)
  ultimately show ?thesis by simp
qed

subsection \<open>Contrast\<close>

lemma contrast_commute: "contrast a b = contrast b a"
  by (simp add: contrast_def Let_def)

text \<open>
  C8. The contrast ratio of the color analyzer is symmetric in its two colours, parsable
  or not.
\<close>

theorem contrast_ratio_symmetric:
  "calculateContrast parse colorA colorB = calculateContrast parse colorB colorA"
  by (cases "parse colorA"; cases "parse colorB")
     (simp_all add: calculateContrast_def chroma_def ebind_def contrast_commute)

text \<open>
  C10. \<open>checkColorCombination\<close> returns a record for every pair of strings. When one
  of them is unparsable the record has ratio 0, both pass flags false and the
  recommendation \<open>Invalid color combination\<close>, while \<open>calculateContrast\<close> of the
  color analyzer answers 1 on the same strings.
\<close>

theorem unparsable_combination_ratio_zero:
  assumes "parse fg = None \<or> parse bg = None"
  shows "ratio (checkColorCombination parse fg bg) = 0
       \<and> \<not> passes_aa (checkColorCombination parse fg bg)
       \<and> \<not> passes_aaa (checkColorCombination parse fg bg)
       \<and> recommendation (checkColorCombination parse fg bg) = ''Invalid color combination''
       \<and> calculateContrast parse fg bg = 1"
  using assms
  by (cases "parse fg"; cases "parse bg")
     (auto simp: checkColorCombination_def chroma_contrast_def calculateContrast_def chroma_def ebind_def)

theorem unparsable_combination_ratio_zero_witness:
  "(red_cyan ''no colour'' = None \<or> red_cyan ''#FF0000'' = None)
   \<and> ratio (checkColorCombination red_cyan ''no colour'' ''#FF0000'') = 0
   \<and> \<not> passes_aa (checkColorCombination red_cyan ''no colour'' ''#FF0000'')
   \<and> \<not> passes_aaa (checkColorCombination red_cyan ''no colour'' ''#FF0000'')
   \<and> calculateContrast red_cyan ''no colour'' ''#FF0000'' = 1"
proof -
  have h: "red_cyan ''no colour'' = None \<or> red_cyan ''#FF0000'' = None"
    by code_simp
  show ?thesis
    using unparsable_combination_ratio_zero [OF h] h by blast
qed

subsection \<open>Accessibility score\<close>




lemma safety_points_count:
  "safety_points cb = real_of_int (10 * int (length (filter (\<lambda>safe. safe)
       [protanopia_safe cb, deuteranopia_safe cb, tritanopia_safe cb])))"
  by (simp add: safety_points_def)

lemma blindness_points_exact:
  "fl (fl (real (length (filter (\<lambda>safe. safe)
       [protanopia_safe cb, deuteranopia_safe cb, tritanopia_safe cb])) / 3) * 30)
     = safety_points cb"
proof -
  define n where "n = length (filter (\<lambda>safe. safe)
       [protanopia_safe cb, deuteranopia_safe cb, tritanopia_safe cb])"
  have third: "fl (1 / 3) = 6004799503160661 / 2 ^ 54"
    by (rule fl_cert [where n = 54 and m = "6004799503160661"]) (simp_all add: round_even_near)
  have third30: "fl (6004799503160661 / 2 ^ 54 * 30) = 10"
    by (rule fl_cert [where n = 49 and m = "5629499534213120"]) (simp_all add: round_even_near)
  have twothirds: "fl (2 / 3) = 6004799503160661 / 2 ^ 53"
    by (rule fl_cert [where n = 53 and m = "6004799503160661"]) (simp_all add: round_even_near)
  have twothirds30: "fl (6004799503160661 / 2 ^ 53 * 30) = 20"
    by (rule fl_cert [where n = 48 and m = "5629499534213120"]) (simp_all add: round_even_near)
  have one: "fl (3 / 3) = 1" by simp
  have one30: "fl (1 * 30) = 30" by simp
  have zero: "real 0 = 0" "real 1 = 1" "fl (0 / 3) = 0" "fl (0 * 30) = 0" by simp_all
  have "n \<le> 3" unfolding n_def by (rule order_trans [OF length_filter_le]) simp
  then consider "n = 0" | "n = 1" | "n = 2" | "n = 3" by linarith
  then have "fl (fl (real n / 3) * 30) = real_of_int (10 * int n)"
  proof cases
    case 1 then show ?thesis by (simp only: zero; simp)
  next
    case 2 then show ?thesis by (simp only: zero third third30; simp)
  next
    case 3 then show ?thesis by (simp only: of_nat_numeral twothirds twothirds30; simp)
  next
    case 4 then show ?thesis by (simp only: of_nat_numeral one one30; simp)
  qed
  then show ?thesis unfolding safety_points_count n_def .
qed

lemma safety_points_range: "0 \<le> safety_points cb" "safety_points cb \<le> 30"
  by (simp_all add: safety_points_def)

text \<open>
  C4, as the code has it. The accessibility score is the sum 25 * (fraction of checks
  passing AA) + 15 * (fraction passing AAA) + 10 for each deficiency that is safe + the
  bonus for the mean ratio (10 above 10, else 5 above 7), capped at 100 and rounded to the
  nearest integer, unless the sum lies exactly halfway between two integers: there the
  score is the sum rounded up or one less, because the code computes the sum in binary64.
  The fractions and the bonus are 0 when there is no check; the mean ratio is the one the
  code accumulates; a JavaScript array has fewer than \<open>2 ^ 32\<close> elements.
\<close>

theorem accessibility_score_formula:
  assumes len: "length checks < 2 ^ 32"
  shows "calculateAccessibilityScore_binary64 checks cb = round (min (exact_points checks cb) 100)
       \<or> (frac (exact_points checks cb) = 1 / 2
          \<and> calculateAccessibilityScore_binary64 checks cb
              = round (min (exact_points checks cb) 100) - 1)"
proof (cases "checks = []")
  case True
  have "fl (0 + safety_points cb) = safety_points cb"
    unfolding safety_points_count add_0
    by (rule fl_of_int) (cases "protanopia_safe cb"; cases "deuteranopia_safe cb";
                         cases "tritanopia_safe cb"; simp)
  moreover have "calculateAccessibilityScore_binary64 [] cb
                   = js_round (min (fl (0 + safety_points cb)) 100)"
    by (simp only: calculateAccessibilityScore_binary64_def Let_def blindness_points_exact
          list.size less_irrefl if_False)
  moreover have "exact_points [] cb = safety_points cb"
    by (simp add: exact_points_def pass_fraction_def high_ratio_bonus_def)
  ultimately show ?thesis
    using True by (simp add: js_round_def round_def)
next
  case False
  define n where "n = length checks"
  define r1 where "r1 = real (length (filter passes_aa checks)) / real n"
  define r2 where "r2 = real (length (filter passes_aaa checks)) / real n"
  define sp where "sp = safety_points cb"
  define b where "b = high_ratio_bonus checks"
  have n: "0 < n" using False by (simp add: n_def)
  have r: "0 \<le> r1" "r1 \<le> 1" "0 \<le> r2" "r2 \<le> 1"
    using n by (simp_all add: r1_def r2_def n_def)
  have sp: "0 \<le> sp" "sp \<le> 30" unfolding sp_def by (rule safety_points_range)+
  define aa where "aa = fl r1"
  define x1 where "x1 = fl (aa * 25)"
  define s1 where "s1 = fl (0 + x1)"
  define aaa where "aaa = fl r2"
  define x2 where "x2 = fl (aaa * 15)"
  define s2 where "s2 = fl (s1 + x2)"
  define s3 where "s3 = fl (s2 + sp)"
  define s4 where "s4 = (if averageRatio checks > 10 then fl (s3 + 10)
                         else if averageRatio checks > 7 then fl (s3 + 5) else s3)"
  have aa: "r1 - 1 / 2 ^ 44 \<le> aa" "aa \<le> r1 + 1 / 2 ^ 44"
    unfolding aa_def by (rule fl_near_512; use r in simp)+
  have x1: "aa * 25 - 1 / 2 ^ 44 \<le> x1" "x1 \<le> aa * 25 + 1 / 2 ^ 44"
    unfolding x1_def by (rule fl_near_512; use r aa in simp)+
  have s1: "0 + x1 - 1 / 2 ^ 44 \<le> s1" "s1 \<le> 0 + x1 + 1 / 2 ^ 44"
    unfolding s1_def by (rule fl_near_512; use r aa x1 in simp)+
  have aaa: "r2 - 1 / 2 ^ 44 \<le> aaa" "aaa \<le> r2 + 1 / 2 ^ 44"
    unfolding aaa_def by (rule fl_near_512; use r in simp)+
  have x2: "aaa * 15 - 1 / 2 ^ 44 \<le> x2" "x2 \<le> aaa * 15 + 1 / 2 ^ 44"
    unfolding x2_def by (rule fl_near_512; use r aaa in simp)+
  have s2: "s1 + x2 - 1 / 2 ^ 44 \<le> s2" "s2 \<le> s1 + x2 + 1 / 2 ^ 44"
    unfolding s2_def by (rule fl_near_512; use r aa x1 s1 aaa x2 in simp)+
  have s3: "s2 + sp - 1 / 2 ^ 44 \<le> s3" "s3 \<le> s2 + sp + 1 / 2 ^ 44"
    unfolding s3_def by (rule fl_near_512; use r sp aa x1 s1 aaa x2 s2 in simp)+
  have t10: "s3 + 10 - 1 / 2 ^ 44 \<le> fl (s3 + 10)" "fl (s3 + 10) \<le> s3 + 10 + 1 / 2 ^ 44"
    by (rule fl_near_512; use r sp aa x1 s1 aaa x2 s2 s3 in simp)+
  have t5: "s3 + 5 - 1 / 2 ^ 44 \<le> fl (s3 + 5)" "fl (s3 + 5) \<le> s3 + 5 + 1 / 2 ^ 44"
    by (rule fl_near_512; use r sp aa x1 s1 aaa x2 s2 s3 in simp)+
  have b: "b = (if averageRatio checks > 10 then 10 else if averageRatio checks > 7 then 5 else 0)"
    using False by (simp add: b_def high_ratio_bonus_def)
  have s4: "s3 + b - 1 / 2 ^ 44 \<le> s4" "s4 \<le> s3 + b + 1 / 2 ^ 44"
    using t10 t5 by (auto simp: s4_def b)
  define S where "S = 25 * r1 + 15 * r2 + sp + b"
  have brange: "0 \<le> b" "b \<le> 10" by (simp_all add: b)
  have near: "S - 1 / 2 ^ 38 \<le> s4" "s4 \<le> S + 1 / 2 ^ 38"
    unfolding S_def using aa x1 s1 aaa x2 s2 s3 s4 by simp_all
  have S80: "S \<le> 80" unfolding S_def using r sp brange by simp
  have code: "calculateAccessibilityScore_binary64 checks cb = js_round s4"
  proof -
    have "min s4 100 = s4" using near S80 by simp
    moreover have "calculateAccessibilityScore_binary64 checks cb = js_round (min s4 100)"
      using n
      by (simp only: calculateAccessibilityScore_binary64_def Let_def blindness_points_exact
            n_def [symmetric] if_True r1_def [symmetric] r2_def [symmetric] aa_def [symmetric]
            x1_def [symmetric] s1_def [symmetric] aaa_def [symmetric] x2_def [symmetric]
            s2_def [symmetric] sp_def [symmetric] s3_def [symmetric] s4_def [symmetric])
    ultimately show ?thesis by simp
  qed
  have exact: "exact_points checks cb = S"
    using False by (simp add: exact_points_def S_def pass_fraction_def r1_def r2_def n_def sp_def b_def)
  define A where "A = 25 * int (length (filter passes_aa checks))
      + 15 * int (length (filter passes_aaa checks))
      + int n * (10 * int (length (filter (\<lambda>safe. safe)
           [protanopia_safe cb, deuteranopia_safe cb, tritanopia_safe cb]))
         + (if averageRatio checks > 10 then 10 else if averageRatio checks > 7 then 5 else 0))"
  have SA: "S = of_int A / real n"
    using n by (simp add: S_def A_def r1_def r2_def sp_def safety_points_count b field_simps)
  have "real n < 2 ^ 32" using len unfolding n_def
    by (metis of_nat_less_numeral_power_cancel_iff)
  then have "2 * real n < 2 ^ 33" by simp
  then have "1 / 2 ^ 33 < 1 / (2 * real n)" using n by (simp add: field_simps)
  then have "\<bar>s4 - of_int A / real n\<bar> < 1 / (2 * real n)"
    using near unfolding SA by (auto simp add: abs_less_iff)
  from round_near_ratio [OF n this]
  show ?thesis unfolding code exact using S80 unfolding SA by (simp add: js_round_def round_def)
qed

theorem accessibility_score_formula_witness:
  "length example_checks_1 < 2 ^ 32
   \<and> exact_points example_checks_1 example_safety = 40
   \<and> calculateAccessibilityScore_binary64 example_checks_1 example_safety = 40"
proof -
  have len: "length example_checks_1 < 2 ^ 32" by (simp add: example_checks_1_def)
  have "averageRatio example_checks_1 = 6"
    by (simp add: averageRatio_def example_checks_1_def)
  then have exact: "exact_points example_checks_1 example_safety = 40"
    by (simp add: exact_points_def high_ratio_bonus_def pass_fraction_def safety_points_def
          example_checks_1_def example_safety_def)
  have "round (min (40 :: real) 100) = 40" "frac (40 :: real) \<noteq> 1 / 2"
    by (simp_all add: frac_def)
  with accessibility_score_formula [OF len, of example_safety] exact len show ?thesis by simp
qed

text \<open>
  C4 as the specification states it fails on 36 checks of which three pass AA and one of
  them AAA, with no deficiency safe and a mean ratio below 7. The sum is 25 * 3 / 36 +
  15 / 36 = 2.5, which rounds to 3; the code computes 2.4999999999999996 and returns 2.
\<close>

lemma few_passes_counts:
  "length few_passes = 36" "length (filter passes_aa few_passes) = 3"
  "length (filter passes_aaa few_passes) = 1"
  by (simp_all add: few_passes_def)

lemma few_passes_sum: "fold (\<lambda>check sum. fl (sum + ratio check)) few_passes 0 = 84"
  by (simp add: few_passes_def eval_nat_numeral)

lemma few_passes_average: "averageRatio few_passes = 5254199565265579 / 2 ^ 51"
proof -
  have av: "fl (84 / 36) = 5254199565265579 / 2 ^ 51"
    by (rule fl_cert [where n = 51 and m = "5254199565265579"]) (simp_all add: round_even_near)
  show ?thesis
    by (simp only: averageRatio_def few_passes_sum few_passes_counts of_nat_numeral av)
qed

theorem accessibility_score_below_tie:
  "calculateAccessibilityScore_binary64 few_passes no_safety = 2
   \<and> round (min (exact_points few_passes no_safety) 100) = 3"
proof -
  have pos: "(0 < length few_passes) = True" by (simp add: few_passes_counts)
  have flags: "length (filter (\<lambda>safe. safe)
      [protanopia_safe no_safety, deuteranopia_safe no_safety, tritanopia_safe no_safety]) = 0"
    by (simp add: no_safety_def)
  have aa: "fl (3 / 36) = 6004799503160661 / 2 ^ 56"
    by (rule fl_cert [where n = 56 and m = "6004799503160661"]) (simp_all add: round_even_near)
  have x1: "fl (6004799503160661 / 2 ^ 56 * 25) = 2345624805922133 / 2 ^ 50"
    by (rule fl_cert [where n = 51 and m = "4691249611844266"]) (simp_all add: round_even_near)
  have s1: "fl (0 + 2345624805922133 / 2 ^ 50) = 2345624805922133 / 2 ^ 50"
    by (rule fl_cert [where n = 51 and m = "4691249611844266"]) (simp_all add: round_even_near)
  have aaa: "fl (1 / 36) = 2001599834386887 / 2 ^ 56"
    by (rule fl_cert [where n = 58 and m = "8006399337547548"]) (simp_all add: round_even_near)
  have x2: "fl (2001599834386887 / 2 ^ 56 * 15) = 3752999689475413 / 2 ^ 53"
    by (rule fl_cert [where n = 54 and m = "7505999378950826"]) (simp_all add: round_even_near)
  have s2: "fl (2345624805922133 / 2 ^ 50 + 3752999689475413 / 2 ^ 53) = 5629499534213119 / 2 ^ 51"
    by (rule fl_cert [where n = 51 and m = "5629499534213119"]) (simp_all add: round_even_near)
  have cb: "real 0 = 0" "real 1 = 1" "fl (0 / 3) = 0" "fl (0 * 30) = 0" by simp_all
  have s3: "fl (5629499534213119 / 2 ^ 51 + 0) = 5629499534213119 / 2 ^ 51"
    by (rule fl_cert [where n = 51 and m = "5629499534213119"]) (simp_all add: round_even_near)
  have cmp: "(10 < (5254199565265579 / 2 ^ 51 :: real)) = False"
    "(7 < (5254199565265579 / 2 ^ 51 :: real)) = False" by simp_all
  have "calculateAccessibilityScore_binary64 few_passes no_safety
          = js_round (min (5629499534213119 / 2 ^ 51) 100)"
    by (simp only: calculateAccessibilityScore_binary64_def Let_def pos if_True few_passes_counts
          flags of_nat_numeral zero_less_numeral aa x1 s1 aaa x2 s2 cb s3 few_passes_average cmp if_False)
  then have code: "calculateAccessibilityScore_binary64 few_passes no_safety = 2"
    by (simp add: js_round_def)
  have exact: "exact_points few_passes no_safety = 5 / 2"
    by (simp add: exact_points_def pass_fraction_def few_passes_counts safety_points_def
          no_safety_def high_ratio_bonus_def few_passes_average)
       (simp add: few_passes_def)
  have "round (min (exact_points few_passes no_safety) 100) = 3"
    unfolding exact by (simp add: round_def)
  with code show ?thesis by simp
qed

text \<open>
  The bonus of the code is the bonus of the exact mean ratio, unless that mean is within
  \<open>1 / 2 ^ 42\<close> of 7 or of 10: for at most 48 checks (a palette of ten colours has 45
  pairs) with ratios between 0 and 21, the mean that the code accumulates is that close to
  the exact mean.
\<close>

lemma fl_near_1024:
  assumes "\<bar>x\<bar> \<le> 1024"
  shows "\<bar>fl x - x\<bar> \<le> 1 / 2 ^ 43"
proof -
  have "\<bar>x\<bar> \<le> 2 ^ 10" using assms by simp
  from fl_error [OF this] show ?thesis by simp
qed

lemma ratio_sum_near:
  assumes "\<forall>check \<in> set checks. 0 \<le> ratio check \<and> ratio check \<le> 21"
    and "k + length checks \<le> 48"
    and "\<bar>a - A\<bar> \<le> real k / 2 ^ 43" "0 \<le> A" "A \<le> 21 * real k"
  shows "\<bar>fold (\<lambda>check sum. fl (sum + ratio check)) checks a - (A + sum_list (map ratio checks))\<bar>
           \<le> real (k + length checks) / 2 ^ 43"
  using assms
proof (induction checks arbitrary: a A k)
  case Nil
  then show ?case by simp
next
  case (Cons c checks)
  from Cons.prems(1) have c: "0 \<le> ratio c" "ratio c \<le> 21" by simp_all
  from Cons.prems(2) have k: "real k \<le> 47" by simp
  then have "real k / 2 ^ 43 \<le> 1" by simp
  with Cons.prems(3) have "\<bar>a - A\<bar> \<le> 1" by linarith
  with Cons.prems(4,5) c k have "\<bar>a + ratio c\<bar> \<le> 1024" by linarith
  then have "\<bar>fl (a + ratio c) - (a + ratio c)\<bar> \<le> 1 / 2 ^ 43" by (rule fl_near_1024)
  with Cons.prems(3) have "\<bar>fl (a + ratio c) - (A + ratio c)\<bar> \<le> real k / 2 ^ 43 + 1 / 2 ^ 43"
    by linarith
  then have near: "\<bar>fl (a + ratio c) - (A + ratio c)\<bar> \<le> real (Suc k) / 2 ^ 43"
    by (simp add: add_divide_distrib)
  have "\<bar>fold (\<lambda>check sum. fl (sum + ratio check)) checks (fl (a + ratio c))
          - (A + ratio c + sum_list (map ratio checks))\<bar>
          \<le> real (Suc k + length checks) / 2 ^ 43"
  proof (rule Cons.IH [OF _ _ near])
    show "\<forall>check \<in> set checks. 0 \<le> ratio check \<and> ratio check \<le> 21"
      using Cons.prems(1) by simp
    show "Suc k + length checks \<le> 48" using Cons.prems(2) by simp
    show "0 \<le> A + ratio c" using Cons.prems(4) c by simp
    show "A + ratio c \<le> 21 * real (Suc k)" using Cons.prems(5) c by simp
  qed
  then show ?case by (simp add: add.assoc)
qed

lemma averageRatio_near_mean:
  assumes "\<forall>check \<in> set checks. 0 \<le> ratio check \<and> ratio check \<le> 21"
    and "checks \<noteq> []" "length checks \<le> 48"
  shows "\<bar>averageRatio checks - mean_ratio checks\<bar> \<le> 1 / 2 ^ 42"
proof -
  define n where "n = real (length checks)"
  define s where "s = fold (\<lambda>check sum. fl (sum + ratio check)) checks 0"
  define S where "S = sum_list (map ratio checks)"
  have n: "1 \<le> n" "n \<le> 48" using assms(2,3) by (simp_all add: n_def Suc_le_eq)
  have "\<bar>s - (0 + S)\<bar> \<le> real (0 + length checks) / 2 ^ 43"
    unfolding s_def S_def by (rule ratio_sum_near [OF assms(1)]) (simp_all add: assms(3))
  then have sum: "\<bar>s - S\<bar> \<le> n / 2 ^ 43" by (simp add: n_def)
  have "\<bar>s / n - S / n\<bar> = \<bar>s - S\<bar> / n" using n by (simp add: diff_divide_distrib [symmetric])
  also have "\<dots> \<le> (n / 2 ^ 43) / n" using sum n by (intro divide_right_mono) simp_all
  also have "\<dots> = 1 / 2 ^ 43" using n by simp
  finally have quotient: "\<bar>s / n - S / n\<bar> \<le> 1 / 2 ^ 43" .
  have "0 \<le> S" unfolding S_def using assms(1) by (intro sum_list_nonneg) auto
  moreover have "S \<le> 21 * n"
  proof -
    have "sum_list (map ratio checks) \<le> sum_list (map (\<lambda>check. 21) checks)"
      using assms(1) by (intro sum_list_mono) simp
    then show ?thesis by (simp add: S_def n_def sum_list_triv)
  qed
  ultimately have "0 \<le> S / n" "S / n \<le> 21" using n by (simp_all add: pos_divide_le_eq)
  moreover have "1 / 2 ^ 43 \<le> (1::real)" by simp
  ultimately have "\<bar>s / n\<bar> \<le> 1024" using quotient by linarith
  then have "\<bar>fl (s / n) - s / n\<bar> \<le> 1 / 2 ^ 43" by (rule fl_near_1024)
  with quotient have "\<bar>fl (s / n) - S / n\<bar> \<le> 1 / 2 ^ 43 + 1 / 2 ^ 43" by linarith
  then show ?thesis
    using assms(2) by (simp add: averageRatio_def mean_ratio_def s_def S_def n_def)
qed

lemma bonus_by_exact_mean:
  assumes "\<forall>check \<in> set checks. 0 \<le> ratio check \<and> ratio check \<le> 21"
    and "length checks \<le> 48"
    and "1 / 2 ^ 42 < \<bar>mean_ratio checks - 10\<bar>" "1 / 2 ^ 42 < \<bar>mean_ratio checks - 7\<bar>"
  shows "high_ratio_bonus checks = ratio_bonus checks"
proof (cases "checks = []")
  case True
  then show ?thesis by (simp add: high_ratio_bonus_def ratio_bonus_def)
next
  case False
  from averageRatio_near_mean [OF assms(1) False assms(2)] assms(3,4)
  have "averageRatio checks > 10 \<longleftrightarrow> mean_ratio checks > 10"
    "averageRatio checks > 7 \<longleftrightarrow> mean_ratio checks > 7"
    by (auto simp: abs_if split: if_splits)
  then show ?thesis by (simp add: high_ratio_bonus_def ratio_bonus_def)
qed



text \<open>
  The same property of the version with the roundings, the mean ratio being the one the
  code accumulates: every operation of the function is monotone, and so is the rounding.
\<close>

lemma pass_fraction_nonneg: "0 \<le> pass_fraction flag checks"
  by (simp add: pass_fraction_def)

lemma accessibility_score_binary64_monotone:
  assumes "length checks1 = length checks2"
    and "pass_fraction passes_aaa checks1 = pass_fraction passes_aaa checks2"
    and "averageRatio checks1 = averageRatio checks2"
    and "pass_fraction passes_aa checks1 \<le> pass_fraction passes_aa checks2"
  shows "calculateAccessibilityScore_binary64 checks1 cb
           \<le> calculateAccessibilityScore_binary64 checks2 cb"
proof (cases "checks1 = []")
  case True
  with assms(1) have "checks2 = []" by simp
  with True show ?thesis by simp
next
  case False
  with assms(1) have ne: "checks1 \<noteq> []" "checks2 \<noteq> []" by auto
  define r1 where "r1 = pass_fraction passes_aa checks1"
  define r1' where "r1' = pass_fraction passes_aa checks2"
  define r2 where "r2 = pass_fraction passes_aaa checks1"
  define sp where "sp = safety_points cb"
  define bonus where "bonus = (\<lambda>s3. if averageRatio checks1 > 10 then fl (s3 + 10)
                                 else if averageRatio checks1 > 7 then fl (s3 + 5) else s3)"
  have code1: "calculateAccessibilityScore_binary64 checks1 cb
      = js_round (min (bonus (fl (fl (fl (0 + fl (fl r1 * 25)) + fl (fl r2 * 15)) + sp))) 100)"
    using ne(1)
    by (simp only: calculateAccessibilityScore_binary64_def Let_def blindness_points_exact)
       (simp add: r1_def r2_def sp_def bonus_def pass_fraction_def)
  have code2: "calculateAccessibilityScore_binary64 checks2 cb
      = js_round (min (bonus (fl (fl (fl (0 + fl (fl r1' * 25)) + fl (fl r2 * 15)) + sp))) 100)"
    using ne assms(2,3)
    by (simp only: calculateAccessibilityScore_binary64_def Let_def blindness_points_exact)
       (simp add: r1'_def r2_def sp_def bonus_def pass_fraction_def)
  have r: "0 \<le> r1" "r1 \<le> r1'" "0 \<le> r2" "0 \<le> sp"
    using assms(4) by (simp_all add: r1_def r1'_def r2_def sp_def pass_fraction_nonneg
        safety_points_range)
  have aa: "0 \<le> fl r1" "fl r1 \<le> fl r1'"
    using r by (auto intro: fl_nonneg fl_mono_nonneg)
  then have x1: "0 \<le> fl (fl r1 * 25)" "fl (fl r1 * 25) \<le> fl (fl r1' * 25)"
    by (auto intro!: fl_nonneg fl_mono_nonneg)
  then have s1: "0 \<le> fl (0 + fl (fl r1 * 25))"
    "fl (0 + fl (fl r1 * 25)) \<le> fl (0 + fl (fl r1' * 25))"
    by (auto intro!: fl_nonneg fl_mono_nonneg)
  have x2: "0 \<le> fl (fl r2 * 15)" using r by (auto intro!: fl_nonneg)
  with s1 have s2: "0 \<le> fl (fl (0 + fl (fl r1 * 25)) + fl (fl r2 * 15))"
    "fl (fl (0 + fl (fl r1 * 25)) + fl (fl r2 * 15))
       \<le> fl (fl (0 + fl (fl r1' * 25)) + fl (fl r2 * 15))"
    by (auto intro!: fl_nonneg fl_mono_nonneg)
  with r have s3: "0 \<le> fl (fl (fl (0 + fl (fl r1 * 25)) + fl (fl r2 * 15)) + sp)"
    "fl (fl (fl (0 + fl (fl r1 * 25)) + fl (fl r2 * 15)) + sp)
       \<le> fl (fl (fl (0 + fl (fl r1' * 25)) + fl (fl r2 * 15)) + sp)"
    by (auto intro!: fl_nonneg fl_mono_nonneg)
  have bonus_mono: "bonus u \<le> bonus v" if "0 \<le> u" "u \<le> v" for u v
    using that by (auto simp: bonus_def intro!: fl_mono_nonneg)
  from bonus_mono [OF s3]
  show ?thesis unfolding code1 code2 js_round_def
    by (intro floor_mono) simp
qed

subsection \<open>Typography\<close>

text \<open>
  C9. On an empty list of text regions the font count, the hierarchy score and the
  readability score are 0, and so are the three fields of the result of
  \<open>analyzeTypography\<close> when the recognition succeeds and no word passes the confidence
  filter.
\<close>

theorem typography_empty_text_boxes:
  assumes "recognize imageBuffer = Inr words" "extractTextRegions words = []"
  shows "estimateFontCount [] = 0 \<and> analyzeHierarchy [] = 0 \<and> analyzeReadability [] imageBuffer = 0
       \<and> font_count (analyzeTypography recognize imageBuffer) = 0
       \<and> hierarchy_score (analyzeTypography recognize imageBuffer) = 0
       \<and> readability_score (analyzeTypography recognize imageBuffer) = 0"
  using assms
  by (simp add: analyzeTypography_def estimateFontCount_def analyzeHierarchy_def
      analyzeReadability_def Let_def)

theorem typography_empty_text_boxes_witness:
  "faint_words [] = Inr (Some [faint_word])
   \<and> extractTextRegions (Some [faint_word]) = []
   \<and> font_count (analyzeTypography faint_words []) = 0
   \<and> hierarchy_score (analyzeTypography faint_words []) = 0
   \<and> readability_score (analyzeTypography faint_words []) = 0"
proof -
  have 1: "faint_words [] = Inr (Some [faint_word])"
    by (simp add: faint_words_def)
  have 2: "extractTextRegions (Some [faint_word]) = []"
    by (simp add: extractTextRegions_def faint_word_def)
  show ?thesis
    using typography_empty_text_boxes [where recognize = faint_words and imageBuffer = "[]", OF 1 2]
      1 2 by blast
qed

subsection \<open>The 3 by 3 regions\<close>

lemma upt_3: "[0 ..< 3] = [0, 1, 2]"
  by (simp add: upt_rec)

lemma third_covered:
  fixes n x :: nat
  shows "length (filter (\<lambda>c. c * (n div 3) \<le> x \<and> x < min (c * (n div 3) + n div 3) n) [0, 1, 2])
     = (if x < 3 * (n div 3) then 1 else 0)"
proof -
  define d where "d = n div 3"
  have "3 * d \<le> n" by (simp add: d_def)
  then show ?thesis
    unfolding d_def [symmetric] by (simp add: min_def)
qed

lemma count_grid:
  "length (filter P (concat (map (\<lambda>row. map (f row) cols) rows)))
     = (\<Sum>row \<leftarrow> rows. length (filter (\<lambda>col. P (f row col)) cols))"
  by (induction rows) (simp_all add: filter_map o_def)

lemma length_filter_conj_const:
  "length (filter (\<lambda>c. A c \<and> B) cs) = (if B then length (filter A cs) else 0)"
  by simp

lemma at_most_one_match:
  assumes "length (filter P xs) \<le> 1" "i < j" "j < length xs"
  shows "\<not> (P (xs ! i) \<and> P (xs ! j))"
proof
  assume "P (xs ! i) \<and> P (xs ! j)"
  with assms(2,3) have "{i, j} \<subseteq> {k. k < length xs \<and> P (xs ! k)}" by auto
  then have "card {i, j} \<le> card {k. k < length xs \<and> P (xs ! k)}"
    by (intro card_mono) simp_all
  moreover from assms(2) have "card {i, j} = 2" by simp
  ultimately have "2 \<le> length (filter P xs)"
    by (simp add: length_filter_conv_card)
  with assms(1) show False by simp
qed

text \<open>
  C2, as the code has it. The nine regions all have the width \<open>width div 3\<close> and the
  height \<open>height div 3\<close>. A pixel left of \<open>3 * (width div 3)\<close> and above
  \<open>3 * (height div 3)\<close> lies in exactly one region, and any other pixel in none: no two
  regions overlap, and the last \<open>width mod 3\<close> columns and \<open>height mod 3\<close> rows of the
  raster belong to no region.
\<close>

theorem regions_tile_truncated_raster:
  "length (divideIntoRegions img) = 9
   \<and> list_all (\<lambda>region. region_width region = getWidth img div 3
                       \<and> region_height region = getHeight img div 3) (divideIntoRegions img)
   \<and> length (covering_regions img x y)
       = (if x < 3 * (getWidth img div 3) \<and> y < 3 * (getHeight img div 3) then 1 else 0)
   \<and> (\<forall>i j. i < j \<and> j < 9 \<longrightarrow>
         \<not> (region_covers img (divideIntoRegions img ! i) x y
            \<and> region_covers img (divideIntoRegions img ! j) x y))"
proof -
  let ?w = "getWidth img" and ?h = "getHeight img"
  let ?A = "\<lambda>c. c * (?w div 3) \<le> x \<and> x < min (c * (?w div 3) + ?w div 3) ?w"
  let ?B = "\<lambda>r. r * (?h div 3) \<le> y \<and> y < min (r * (?h div 3) + ?h div 3) ?h"
  have 1: "length (divideIntoRegions img) = 9"
    by (simp add: divideIntoRegions_def upt_3 Let_def)
  have 2: "list_all (\<lambda>region. region_width region = ?w div 3 \<and> region_height region = ?h div 3)
             (divideIntoRegions img)"
    by (simp add: divideIntoRegions_def upt_3 Let_def)
  have "length (covering_regions img x y)
          = (\<Sum>row \<leftarrow> [0, 1, 2]. length (filter (\<lambda>col. ?A col \<and> ?B row) [0, 1, 2]))"
    unfolding covering_regions_def divideIntoRegions_def Let_def upt_3 count_grid
    by (simp add: region_covers_def region_columns_def region_rows_def)
  also have "\<dots> = (\<Sum>row \<leftarrow> [0, 1, 2]. if ?B row then length (filter ?A [0, 1, 2]) else 0)"
    unfolding length_filter_conj_const ..
  also have "\<dots> = length (filter ?A [0, 1, 2]) * length (filter ?B [0, 1, 2])"
    by simp
  also have "\<dots> = (if x < 3 * (?w div 3) \<and> y < 3 * (?h div 3) then 1 else 0)"
    unfolding third_covered by simp
  finally have 3: "length (covering_regions img x y)
       = (if x < 3 * (?w div 3) \<and> y < 3 * (?h div 3) then 1 else 0)" .
  then have "length (filter (\<lambda>region. region_covers img region x y) (divideIntoRegions img)) \<le> 1"
    by (simp add: covering_regions_def)
  then have 4: "\<not> (region_covers img (divideIntoRegions img ! i) x y
                  \<and> region_covers img (divideIntoRegions img ! j) x y)"
    if "i < j" "j < 9" for i j
    using that 1 by (intro at_most_one_match) simp_all
  from 1 2 3 4 show ?thesis by blast
qed

theorem regions_tile_truncated_raster_witness:
  "(0::nat) < 4 \<and> (4::nat) < 9
   \<and> length (covering_regions (solid 7 5 white) 3 1) = 1
   \<and> \<not> (region_covers (solid 7 5 white) (divideIntoRegions (solid 7 5 white) ! 0) 3 1
          \<and> region_covers (solid 7 5 white) (divideIntoRegions (solid 7 5 white) ! 4) 3 1)"
proof -
  from regions_tile_truncated_raster [of "solid 7 5 white" 3 1]
  have count: "length (covering_regions (solid 7 5 white) 3 1)
                 = (if 3 < 3 * (getWidth (solid 7 5 white) div 3)
                       \<and> 1 < 3 * (getHeight (solid 7 5 white) div 3) then 1 else 0)"
    and apart: "\<forall>i j. i < j \<and> j < 9 \<longrightarrow>
         \<not> (region_covers (solid 7 5 white) (divideIntoRegions (solid 7 5 white) ! i) 3 1
            \<and> region_covers (solid 7 5 white) (divideIntoRegions (solid 7 5 white) ! j) 3 1)"
    by blast+
  from count have "length (covering_regions (solid 7 5 white) 3 1) = 1"
    by (simp add: solid_def)
  moreover have "(0::nat) < 4 \<and> (4::nat) < 9" by simp
  with apart have
    "\<not> (region_covers (solid 7 5 white) (divideIntoRegions (solid 7 5 white) ! 0) 3 1
        \<and> region_covers (solid 7 5 white) (divideIntoRegions (solid 7 5 white) ! 4) 3 1)"
    by blast
  ultimately show ?thesis by simp
qed

text \<open>
  C2 as the specification states it fails on a raster of 4 by 4 pixels: the last pixel of
  the raster is in no region.
\<close>

theorem regions_miss_last_pixel:
  "0 < getWidth (solid 4 4 white) \<and> 0 < getHeight (solid 4 4 white)
   \<and> 3 < getWidth (solid 4 4 white) \<and> 3 < getHeight (solid 4 4 white)
   \<and> covering_regions (solid 4 4 white) 3 3 = []"
  by (simp add: solid_def covering_regions_def divideIntoRegions_def upt_3 region_covers_def
      region_columns_def region_rows_def)

subsection \<open>Failure of the composition analysis\<close>

text \<open>
  C7. Whenever the body of the \<open>try\<close> block of \<open>analyzeComposition\<close> throws, the
  function returns the fixed degraded result; its result type holds no exception.
\<close>

theorem composition_exception_degrades:
  assumes "analyzeComposition_try read toGrey maxArguments imageBuffer design_type = Some (Inl e)"
  shows "analyzeComposition read toGrey maxArguments imageBuffer design_type
           = Some \<lparr>score = 50, grid_alignment = False,
                   visual_hierarchy = [''Unable to analyze hierarchy''],
                   balance = Asymmetric, spacing_consistency = False, alignment_score = 50\<rparr>"
  using assms by (simp add: analyzeComposition_def degraded_layout_def)

lemma undecodable_throws:
  "analyzeComposition_try undecodable luma 65535 [] ''web'' = Some (Inl DecodeError)"
  by (simp add: analyzeComposition_try_def undecodable_def)

lemma truncated_raster_throws:
  "analyzeComposition_try truncated_raster luma 65535 [] ''web'' = Some (Inl RangeError)"
proof -
  have "brightnessAt (greyscale luma \<lparr>getWidth = 3, getHeight = 3, bitmap = [white, white]\<rparr>) 1 1
          = Inl RangeError"
    by (simp add: brightnessAt_def getPixelColor_def greyscale_def)
  moreover have "getWidth (greyscale luma \<lparr>getWidth = 3, getHeight = 3, bitmap = [white, white]\<rparr>) = 3"
    "getHeight (greyscale luma \<lparr>getWidth = 3, getHeight = 3, bitmap = [white, white]\<rparr>) = 3"
    by (simp_all add: greyscale_def)
  moreover have "[1 ..< 3 - 1] = [1::nat]" by code_simp
  ultimately have "detectVerticalLines (greyscale luma \<lparr>getWidth = 3, getHeight = 3, bitmap = [white, white]\<rparr>)
          = Inl RangeError"
    unfolding detectVerticalLines_def Let_def by simp
  then show ?thesis
    by (simp add: analyzeComposition_try_def truncated_raster_def analyzeGridAlignment_def)
qed

theorem composition_exception_degrades_witness:
  "analyzeComposition_try undecodable luma 65535 [] ''web'' = Some (Inl DecodeError)
   \<and> analyzeComposition undecodable luma 65535 [] ''web''
       = Some \<lparr>score = 50, grid_alignment = False,
               visual_hierarchy = [''Unable to analyze hierarchy''],
               balance = Asymmetric, spacing_consistency = False, alignment_score = 50\<rparr>
   \<and> analyzeComposition_try truncated_raster luma 65535 [] ''web'' = Some (Inl RangeError)
   \<and> analyzeComposition truncated_raster luma 65535 [] ''web''
       = Some \<lparr>score = 50, grid_alignment = False,
               visual_hierarchy = [''Unable to analyze hierarchy''],
               balance = Asymmetric, spacing_consistency = False, alignment_score = 50\<rparr>"
  using composition_exception_degrades [OF undecodable_throws]
    composition_exception_degrades [OF truncated_raster_throws]
    undecodable_throws truncated_raster_throws
  by blast

subsection \<open>Rasters of one colour\<close>

lemma solid_simps [simp]:
  "getWidth (solid w h c) = w" "getHeight (solid w h c) = h"
  "bitmap (solid w h c) = replicate (w * h) c"
  by (simp_all add: solid_def)

lemma pixel_index_in_range:
  fixes x y w h :: nat
  assumes "x < w" "y < h"
  shows "w * y + x < w * h"
proof -
  have "w * y + x < w * y + w" using assms by simp
  also have "\<dots> = w * (y + 1)" by simp
  also have "\<dots> \<le> w * h" using assms by (intro mult_le_mono2) simp
  finally show ?thesis .
qed

lemma getPixelColor_solid:
  "x < w \<Longrightarrow> y < h \<Longrightarrow> getPixelColor (solid w h c) x y = Inr c"
  by (simp add: getPixelColor_def Let_def min_absorb1 pixel_index_in_range)

lemma brightnessAt_solid:
  "x < w \<Longrightarrow> y < h \<Longrightarrow> brightnessAt (solid w h c) x y = Inr (brightness c)"
  by (simp add: brightnessAt_def getPixelColor_solid)

lemma yields_brightnessAt_solid:
  "x < w \<Longrightarrow> y < h \<Longrightarrow> P (brightness c) \<Longrightarrow> yields (brightnessAt (solid w h c) x y) P"
  by (simp add: brightnessAt_solid)

lemma greyscale_solid: "greyscale toGrey (solid w h c) = solid w h (toGrey c)"
  by (simp add: greyscale_def solid_def)

text \<open>The grey of white is 254: its luma is 254.99999999999997 in binary64.\<close>

lemma luma_white: "luma white = \<lparr>red = 254, green = 254, blue = 254, alpha = 255\<rparr>"
proof -
  have ch: "real (unat (red white)) = 255" "real (unat (green white)) = 255"
    "real (unat (blue white)) = 255"
    by (simp_all add: white_def)
  have cr: "fl 0.2126 = 1914930561557935 / 2 ^ 53"
    by (rule fl_cert [where n = 55 and m = "7659722246231740"]) (simp_all add: round_even_near)
  have cg: "fl 0.7152 = 6441948906990757 / 2 ^ 53"
    by (rule fl_cert [where n = 53 and m = "6441948906990757"]) (simp_all add: round_even_near)
  have cb: "fl 0.0722 = 5202558289538397 / 2 ^ 56"
    by (rule fl_cert [where n = 56 and m = "5202558289538397"]) (simp_all add: round_even_near)
  have r: "fl (1914930561557935 / 2 ^ 53 * 255) = 7629801456207397 / 2 ^ 47"
    by (rule fl_cert [where n = 47 and m = "7629801456207397"]) (simp_all add: round_even_near)
  have g: "fl (6441948906990757 / 2 ^ 53 * 255) = 802098130509103 / 2 ^ 42"
    by (rule fl_cert [where n = 45 and m = "6416785044072824"]) (simp_all add: round_even_near)
  have b: "fl (5202558289538397 / 2 ^ 56 * 255) = 323889737263743 / 2 ^ 44"
    by (rule fl_cert [where n = 48 and m = "5182235796219888"]) (simp_all add: round_even_near)
  have rg: "fl (7629801456207397 / 2 ^ 47 + 802098130509103 / 2 ^ 42) = 8324235408124673 / 2 ^ 45"
    by (rule fl_cert [where n = 45 and m = "8324235408124673"]) (simp_all add: round_even_near)
  have rgb: "fl (8324235408124673 / 2 ^ 45 + 323889737263743 / 2 ^ 44) = 8972014882652159 / 2 ^ 45"
    by (rule fl_cert [where n = 45 and m = "8972014882652159"]) (simp_all add: round_even_near)
  have grey: "nat \<lfloor>8972014882652159 / 2 ^ 45 :: real\<rfloor> = 254" by simp
  have "luma white = white\<lparr>red := word_of_nat 254, green := word_of_nat 254,
                              blue := word_of_nat 254\<rparr>"
    by (simp only: luma_def Let_def ch cr cg cb r g b rg rgb grey)
  then show ?thesis by (simp add: white_def)
qed

text \<open>On a well-formed raster no analysis throws.\<close>

lemma yields_brightnessAt:
  assumes "well_formed img" "x < getWidth img" "y < getHeight img" "\<And>b. P b"
  shows "yields (brightnessAt img x y) P"
proof -
  have "getWidth img * y + x < getWidth img * getHeight img"
    using assms(2,3) by (rule pixel_index_in_range)
  with assms(1) have "getWidth img * y + x < length (bitmap img)"
    by (simp add: well_formed_def)
  with assms(2,3,4) show ?thesis
    by (simp add: brightnessAt_def getPixelColor_def Let_def min_absorb1)
qed

lemma well_formed_greyscale: "well_formed img \<Longrightarrow> well_formed (greyscale toGrey img)"
  by (simp add: well_formed_def greyscale_def)

lemma greyscale_dims [simp]:
  "getWidth (greyscale toGrey img) = getWidth img" "getHeight (greyscale toGrey img) = getHeight img"
  by (simp_all add: greyscale_def)

lemma well_formed_solid: "well_formed (solid w h c)"
  by (simp add: well_formed_def)

lemma detectVerticalLines_returns:
  assumes "well_formed img"
  shows "yields (detectVerticalLines img) (\<lambda>lines. True)"
  unfolding detectVerticalLines_def Let_def
  apply (rule yields_ebind)
  apply (rule yields_weaken)
   apply (rule yields_foldE [where I = "\<lambda>lines. True"])
    apply simp
   apply (rule yields_ebind)
   apply (rule yields_weaken)
    apply (rule yields_foldE [where I = "\<lambda>edgeCount. True"])
     apply simp
    apply (rule yields_ebind, rule yields_brightnessAt [OF assms], force, force)
    apply (rule yields_ebind, rule yields_brightnessAt [OF assms], force, force)
    apply (rule yields_ebind, rule yields_brightnessAt [OF assms], force, force)
    apply simp
   apply simp
  apply simp
  done

lemma detectHorizontalLines_returns:
  assumes "well_formed img"
  shows "yields (detectHorizontalLines img) (\<lambda>lines. True)"
  unfolding detectHorizontalLines_def Let_def
  apply (rule yields_ebind)
  apply (rule yields_weaken)
   apply (rule yields_foldE [where I = "\<lambda>lines. True"])
    apply simp
   apply (rule yields_ebind)
   apply (rule yields_weaken)
    apply (rule yields_foldE [where I = "\<lambda>edgeCount. True"])
     apply simp
    apply (rule yields_ebind, rule yields_brightnessAt [OF assms], force, force)
    apply (rule yields_ebind, rule yields_brightnessAt [OF assms], force, force)
    apply (rule yields_ebind, rule yields_brightnessAt [OF assms], force, force)
    apply simp
   apply simp
  apply simp
  done

lemma analyzeGridAlignment_returns:
  assumes "well_formed img"
  shows "yields (analyzeGridAlignment toGrey img) (\<lambda>grid. True)"
  unfolding analyzeGridAlignment_def Let_def
  apply (rule yields_ebind)
  apply (rule yields_weaken [OF detectVerticalLines_returns [OF well_formed_greyscale [OF assms]]])
  apply (rule yields_ebind)
  apply (rule yields_weaken [OF detectHorizontalLines_returns [OF well_formed_greyscale [OF assms]]])
  apply simp
  done

lemma collect_row:
  assumes "\<And>x. x \<in> set xs \<Longrightarrow> yields (g x) (\<lambda>b. True)"
  shows "yields (foldE (\<lambda>x bs. ebind (g x) (\<lambda>b. Inr (bs @ [b]))) xs s)
           (\<lambda>bs. length bs = length s + length xs)"
  using assms
proof (induction xs arbitrary: s)
  case Nil
  then show ?case by simp
next
  case (Cons x xs)
  from Cons.prems obtain b where b: "g x = Inr b"
    by (meson list.set_intros(1) yieldsE)
  have "yields (foldE (\<lambda>x bs. ebind (g x) (\<lambda>b. Inr (bs @ [b]))) xs (s @ [b]))
          (\<lambda>bs. length bs = length (s @ [b]) + length xs)"
    by (rule Cons.IH) (simp add: Cons.prems)
  then show ?case by (simp add: b)
qed

lemma collect_rows:
  assumes "\<And>x y. x \<in> set xs \<Longrightarrow> y \<in> set ys \<Longrightarrow> yields (g x y) (\<lambda>b. True)"
  shows "yields (foldE (\<lambda>y bs. foldE (\<lambda>x bs. ebind (g x y) (\<lambda>b. Inr (bs @ [b]))) xs bs) ys s)
           (\<lambda>bs. length bs = length s + length ys * length xs)"
  using assms
proof (induction ys arbitrary: s)
  case Nil
  then show ?case by simp
next
  case (Cons y ys)
  have "yields (foldE (\<lambda>x bs. ebind (g x y) (\<lambda>b. Inr (bs @ [b]))) xs s)
          (\<lambda>bs. length bs = length s + length xs)"
    by (rule collect_row) (simp add: Cons.prems)
  then obtain s' where s': "foldE (\<lambda>x bs. ebind (g x y) (\<lambda>b. Inr (bs @ [b]))) xs s = Inr s'"
    "length s' = length s + length xs" by (rule yieldsE)
  have "yields (foldE (\<lambda>y bs. foldE (\<lambda>x bs. ebind (g x y) (\<lambda>b. Inr (bs @ [b]))) xs bs) ys s')
          (\<lambda>bs. length bs = length s' + length ys * length xs)"
    by (rule Cons.IH) (simp add: Cons.prems)
  then show ?case by (simp add: s' add.assoc)
qed

lemma region_brightnesses_returns:
  assumes "well_formed img"
  shows "yields (region_brightnesses img region)
           (\<lambda>brightnesses. length brightnesses
              = length (region_rows img region) * length (region_columns img region))"
proof -
  have "yields (region_brightnesses img region)
          (\<lambda>brightnesses. length brightnesses
             = length ([]::real list)
               + length (region_rows img region) * length (region_columns img region))"
    unfolding region_brightnesses_def
  proof (rule collect_rows)
    fix x y
    assume "x \<in> set (region_columns img region)" "y \<in> set (region_rows img region)"
    then have "x < getWidth img" "y < getHeight img"
      by (auto simp: region_columns_def region_rows_def)
    then show "yields (brightnessAt img x y) (\<lambda>b. True)"
      by (intro yields_brightnessAt [OF assms]) simp_all
  qed
  then show ?thesis by simp
qed

lemma spread_within:
  "length xs \<le> maxArguments \<Longrightarrow> math_max maxArguments xs = Inr (Max (set xs))"
  "length xs \<le> maxArguments \<Longrightarrow> math_min maxArguments xs = Inr (Min (set xs))"
  by (simp_all add: math_max_def math_min_def spread_def)

lemma spread_beyond:
  "maxArguments < length xs \<Longrightarrow> math_max maxArguments xs = Inl RangeError"
  by (simp add: math_max_def spread_def)

lemma calculateRegionContrast_returns:
  assumes "well_formed img" "region_width region * region_height region \<le> maxArguments"
  shows "yields (calculateRegionContrast maxArguments img region) (\<lambda>contrast. True)"
proof -
  from region_brightnesses_returns [OF assms(1)]
  obtain brightnesses where b: "region_brightnesses img region = Inr brightnesses"
    "length brightnesses = length (region_rows img region) * length (region_columns img region)"
    by (rule yieldsE)
  have "length (region_rows img region) \<le> region_height region"
    "length (region_columns img region) \<le> region_width region"
    by (simp_all add: region_rows_def region_columns_def)
  then have "length brightnesses \<le> region_height region * region_width region"
    unfolding b(2) by (rule mult_le_mono)
  with assms(2) have "length brightnesses \<le> maxArguments" by (simp add: mult.commute)
  then show ?thesis
    by (simp add: calculateRegionContrast_def b(1) spread_within)
qed


lemma calculateRegionBrightness_returns:
  assumes "well_formed img"
  shows "yields (calculateRegionBrightness img region) (\<lambda>brightness. True)"
  unfolding calculateRegionBrightness_def
  apply (rule yields_ebind)
  apply (rule yields_weaken)
   apply (rule yields_foldE [where I = "\<lambda>state. True"])
    apply simp
   apply (rule yields_foldE [where I = "\<lambda>state. True"])
    apply simp
   apply (case_tac sa, simp only: case_prod_conv)
   apply (rule yields_ebind, rule yields_brightnessAt [OF assms])
     apply (force simp: region_columns_def)
    apply (force simp: region_rows_def)
   apply simp
  apply (case_tac v, simp)
  done

lemma region_size:
  assumes "region \<in> set (divideIntoRegions img)"
  shows "region_width region = getWidth img div 3" "region_height region = getHeight img div 3"
  using assms by (auto simp: divideIntoRegions_def Let_def)

lemma analyzeVisualHierarchy_returns:
  assumes "well_formed img" "(getWidth img div 3) * (getHeight img div 3) \<le> maxArguments"
  shows "yields (analyzeVisualHierarchy maxArguments img design_type) (\<lambda>hierarchy. True)"
  unfolding analyzeVisualHierarchy_def
  apply (subst Let_def)
  apply (rule yields_ebind)
  apply (rule yields_weaken)
   apply (rule yields_foldE [where I = "\<lambda>analysed. True"])
    apply simp
   apply (rule yields_ebind)
   apply (rule yields_weaken [OF calculateRegionContrast_returns [OF assms(1)]])
    apply (simp add: region_size assms(2))
   apply (rule yields_ebind)
   apply (rule yields_weaken [OF calculateRegionBrightness_returns [OF assms(1)]])
   apply simp
  apply (simp add: Let_def)
  done

text \<open>
  A raster whose regions hold more pixels than the engine takes arguments: the contrast
  of the first region throws.
\<close>

lemma analyzeVisualHierarchy_throws:
  assumes "well_formed img" "maxArguments < (getWidth img div 3) * (getHeight img div 3)"
  shows "analyzeVisualHierarchy maxArguments img design_type = Inl RangeError"
proof -
  let ?first = "\<lparr>region_x = 0, region_y = 0, region_width = getWidth img div 3,
                  region_height = getHeight img div 3\<rparr>"
  from region_brightnesses_returns [OF assms(1), of ?first]
  obtain brightnesses where b: "region_brightnesses img ?first = Inr brightnesses"
    "length brightnesses = length (region_rows img ?first) * length (region_columns img ?first)"
    by (rule yieldsE)
  have "getWidth img div 3 \<le> getWidth img" "getHeight img div 3 \<le> getHeight img" by simp_all
  then have "length (region_rows img ?first) = getHeight img div 3"
    "length (region_columns img ?first) = getWidth img div 3"
    by (simp_all add: region_rows_def region_columns_def)
  with b(2) assms(2) have big: "maxArguments < length brightnesses" by (simp add: mult.commute)
  then have "calculateRegionContrast maxArguments img ?first = Inl RangeError"
    by (auto simp: calculateRegionContrast_def b(1) spread_beyond)
  moreover obtain rest where "divideIntoRegions img = ?first # rest"
    by (simp add: divideIntoRegions_def upt_3 Let_def)
  ultimately show ?thesis
    by (simp add: analyzeVisualHierarchy_def Let_def)
qed


lemma getImageHalf_returns:
  assumes "well_formed img"
  shows "yields (getImageHalf img half) (\<lambda>pixels. True)"
  unfolding getImageHalf_def Let_def
  apply (rule yields_foldE [where I = "\<lambda>pixels. True"])
   apply simp
  apply (rule yields_foldE [where I = "\<lambda>pixels. True"])
   apply simp
  apply (rule yields_ebind, rule yields_brightnessAt [OF assms], force, force)
  apply simp
  done

lemma calculateRadialVariance_returns:
  assumes "well_formed img"
  shows "yields (calculateRadialVariance img centerX centerY maxRadius averageBrightness)
           (\<lambda>variance. True)"
  unfolding calculateRadialVariance_def Let_def
  apply (rule yields_ebind)
  apply (rule yields_weaken)
   apply (rule yields_foldE [where I = "\<lambda>state. True"])
    apply simp
   apply (rule yields_foldE [where I = "\<lambda>state. True"])
    apply simp
   apply (case_tac sa, simp only: case_prod_conv)
   apply (rule yields_if)
    apply (rule yields_ebind, rule yields_brightnessAt [OF assms], force, force)
    apply simp
   apply simp
  apply (case_tac v, simp)
  done

lemma analyzeRadialBalance_returns:
  assumes "well_formed img"
  shows "yields (analyzeRadialBalance img) (\<lambda>radialScore. True)"
  unfolding analyzeRadialBalance_def Let_def
  apply (rule yields_ebind)
  apply (rule yields_weaken)
   apply (rule yields_foldE [where I = "\<lambda>state. True"])
    apply simp
   apply (rule yields_foldE [where I = "\<lambda>state. True"])
    apply simp
   apply (case_tac sa, simp only: case_prod_conv)
   apply (rule yields_if)
    apply (rule yields_ebind, rule yields_brightnessAt [OF assms], force, force)
    apply simp
   apply simp
  apply (case_tac v, simp only: case_prod_conv)
  apply (rule yields_ebind)
  apply (rule yields_weaken [OF calculateRadialVariance_returns [OF assms]])
  apply simp
  done

lemma analyzeBalance_returns:
  assumes "well_formed img"
  shows "yields (analyzeBalance img) (\<lambda>balance. True)"
  unfolding analyzeBalance_def Let_def
  apply (rule yields_ebind)
  apply (rule yields_weaken [OF getImageHalf_returns [OF assms]])
  apply (rule yields_ebind)
  apply (rule yields_weaken [OF getImageHalf_returns [OF assms]])
  apply (rule yields_ebind)
  apply (rule yields_weaken [OF analyzeRadialBalance_returns [OF assms]])
  apply simp
  done

lemma checkLocalSpacing_returns:
  assumes "well_formed img"
  shows "yields (checkLocalSpacing img centerX centerY) (\<lambda>localSpacing. True)"
  unfolding checkLocalSpacing_def Let_def
  apply (rule yields_ebind)
  apply (rule yields_weaken)
   apply (rule yields_foldE [where I = "\<lambda>state. True"])
    apply simp
   apply (rule yields_foldE [where I = "\<lambda>state. True"])
    apply simp
   apply (case_tac sa, simp only: case_prod_conv)
   apply (rule yields_ebind, rule yields_brightnessAt [OF assms], force, force)
   apply simp
  apply (case_tac v, simp)
  done

lemma window_length:
  "length [nat (max 0 (int centre - 10)) ..< nat (min (int bound) (int centre + 10))] \<le> 20"
  by simp

lemma calculateLocalContrast_returns:
  assumes "well_formed img" "400 \<le> maxArguments"
  shows "yields (calculateLocalContrast maxArguments img centerX centerY) (\<lambda>contrast. True)"
proof -
  let ?xs = "[nat (max 0 (int centerX - 10)) ..< nat (min (int (getWidth img)) (int centerX + 10))]"
  let ?ys = "[nat (max 0 (int centerY - 10)) ..< nat (min (int (getHeight img)) (int centerY + 10))]"
  have "yields (foldE (\<lambda>y bs. foldE (\<lambda>x bs. ebind (brightnessAt img x y) (\<lambda>b. Inr (bs @ [b]))) ?xs bs)
                  ?ys [])
          (\<lambda>bs. length bs = length ([]::real list) + length ?ys * length ?xs)"
  proof (rule collect_rows)
    fix x y
    assume "x \<in> set ?xs" "y \<in> set ?ys"
    then have "x < getWidth img" "y < getHeight img" by auto
    then show "yields (brightnessAt img x y) (\<lambda>b. True)"
      by (intro yields_brightnessAt [OF assms(1)]) simp_all
  qed
  then obtain brightnesses where b:
    "foldE (\<lambda>y bs. foldE (\<lambda>x bs. ebind (brightnessAt img x y) (\<lambda>b. Inr (bs @ [b]))) ?xs bs) ?ys []
       = Inr brightnesses"
    "length brightnesses = length ([]::real list) + length ?ys * length ?xs"
    by (rule yieldsE)
  have "length ?ys * length ?xs \<le> 20 * 20"
    by (intro mult_le_mono window_length)
  with b(2) assms(2) have "length brightnesses \<le> maxArguments" by simp
  then show ?thesis
    by (simp add: calculateLocalContrast_def Let_def b(1) spread_within)
qed

lemma checkRuleOfThirds_returns:
  assumes "well_formed img" "400 \<le> maxArguments"
  shows "yields (checkRuleOfThirds maxArguments img) (\<lambda>score. True)"
  unfolding checkRuleOfThirds_def Let_def
  apply (rule yields_ebind)
  apply (rule yields_weaken)
   apply (rule yields_foldE [where I = "\<lambda>score. True"])
    apply simp
   apply (rule yields_foldE [where I = "\<lambda>score. True"])
    apply simp
   apply (rule yields_ebind)
   apply (rule yields_weaken [OF calculateLocalContrast_returns [OF assms]])
   apply simp
  apply simp
  done

lemma calculateAlignmentScore_returns:
  assumes "well_formed img" "400 \<le> maxArguments"
  shows "yields (calculateAlignmentScore maxArguments img) (\<lambda>score. True)"
  unfolding calculateAlignmentScore_def Let_def
  apply (rule yields_ebind)
  apply (rule yields_weaken [OF detectVerticalLines_returns [OF assms(1)]])
  apply (rule yields_ebind)
  apply (rule yields_weaken [OF detectHorizontalLines_returns [OF assms(1)]])
  apply (rule yields_ebind)
  apply (rule yields_weaken [OF checkRuleOfThirds_returns [OF assms]])
  apply simp
  done


lemma spacing_columns_returns:
  assumes "well_formed img" "0 < getWidth img div 10"
  shows "\<exists>state'. spacing_columns img y x state = Some (Inr state')"
proof (induction "getWidth img - x" arbitrary: x state rule: less_induct)
  case less
  show ?case
  proof (cases "x < getWidth img")
    case True
    obtain localSpacing where l: "checkLocalSpacing img x y = Inr localSpacing"
      using checkLocalSpacing_returns [OF assms(1)] by (rule yieldsE)
    from True assms(2) have "getWidth img - (x + getWidth img div 10) < getWidth img - x"
      by simp
    from less [OF this] True l show ?thesis
      by (subst spacing_columns.simps) simp
  next
    case False
    then show ?thesis by (subst spacing_columns.simps) simp
  qed
qed

lemma spacing_rows_returns:
  assumes "well_formed img" "0 < getWidth img div 10" "0 < getHeight img div 10"
  shows "\<exists>state'. spacing_rows img y state = Some (Inr state')"
proof (induction "getHeight img - y" arbitrary: y state rule: less_induct)
  case less
  show ?case
  proof (cases "y < getHeight img")
    case True
    from spacing_columns_returns [OF assms(1,2)]
    obtain state' where s: "spacing_columns img y 0 state = Some (Inr state')" by blast
    from True assms(3) have "getHeight img - (y + getHeight img div 10) < getHeight img - y"
      by simp
    from less [OF this] True s show ?thesis
      by (subst spacing_rows.simps) simp
  next
    case False
    then show ?thesis by (subst spacing_rows.simps) simp
  qed
qed

lemma spacing_columns_stuck:
  assumes "well_formed img" "getWidth img div 10 = 0" "x < getWidth img"
  shows "spacing_columns img y x state = None"
proof (rule ccontr)
  assume "spacing_columns img y x state \<noteq> None"
  then obtain r where r: "spacing_columns img y x state = Some r" by auto
  have "(case (((img, y), x), state) of (a, st) \<Rightarrow> (case a of (b, x) \<Rightarrow> (case b of (img, y) \<Rightarrow>
           \<lambda>x st r. \<not> (well_formed img \<and> getWidth img div 10 = 0 \<and> x < getWidth img)) x) st) r"
  proof (rule spacing_columns.raw_induct
      [where P = "\<lambda>img y x st r. \<not> (well_formed img \<and> getWidth img div 10 = 0 \<and> x < getWidth img)"],
      goal_cases)
    case (1 f img y x state r)
    show ?case
    proof
      assume a: "well_formed img \<and> getWidth img div 10 = 0 \<and> x < getWidth img"
      obtain localSpacing where l: "checkLocalSpacing img x y = Inr localSpacing"
        using checkLocalSpacing_returns [of img] a by (blast elim: yieldsE)
      with 1(2) a have "f img y x
            (if localSpacing then fst state + 1 else fst state, snd state + 1) = Some r"
        by simp
      from 1(1) [OF this] a show False by simp
    qed
  next
    case 2
    from r show ?case by simp
  qed
  with assms show False by simp
qed

lemma spacing_rows_stuck:
  assumes "well_formed img" "0 < getWidth img" "y < getHeight img"
    and "getWidth img div 10 = 0 \<or> getHeight img div 10 = 0"
  shows "spacing_rows img y state = None"
proof (rule ccontr)
  assume "spacing_rows img y state \<noteq> None"
  then obtain r where r: "spacing_rows img y state = Some r" by auto
  have "\<not> (well_formed img \<and> 0 < getWidth img \<and> y < getHeight img
            \<and> (getWidth img div 10 = 0 \<or> getHeight img div 10 = 0))"
  proof (rule spacing_rows.raw_induct
      [where P = "\<lambda>img y st r. \<not> (well_formed img \<and> 0 < getWidth img \<and> y < getHeight img
            \<and> (getWidth img div 10 = 0 \<or> getHeight img div 10 = 0))", OF _ r], goal_cases)
    case (1 f img y state r)
    show ?case
    proof
      assume a: "well_formed img \<and> 0 < getWidth img \<and> y < getHeight img
            \<and> (getWidth img div 10 = 0 \<or> getHeight img div 10 = 0)"
      show False
      proof (cases "getWidth img div 10 = 0")
        case True
        with a have "spacing_columns img y 0 state = None"
          by (intro spacing_columns_stuck) simp_all
        with 1(2) a show False by simp
      next
        case False
        with a have h: "getHeight img div 10 = 0" by simp
        from False a obtain state' where s: "spacing_columns img y 0 state = Some (Inr state')"
          using spacing_columns_returns [of img y 0 state] by auto
        with 1(2) a h have "f img y state' = Some r" by simp
        from 1(1) [OF this] a show False by simp
      qed
    qed
  qed
  with assms show False by simp
qed

text \<open>The values of the analyses on a raster of one colour.\<close>

lemma detectVerticalLines_solid: "detectVerticalLines (solid w h c) = Inr []"
  unfolding detectVerticalLines_def Let_def yields_eq
  apply (rule yields_ebind)
  apply (rule yields_weaken)
   apply (rule yields_foldE [where I = "\<lambda>lines. lines = []"])
    apply simp
   apply (rule yields_ebind)
   apply (rule yields_weaken)
    apply (rule yields_foldE [where I = "\<lambda>edgeCount. edgeCount = 0"])
     apply simp
    apply (rule yields_ebind, rule yields_brightnessAt_solid, force, force)
    apply (rule yields_ebind, rule yields_brightnessAt_solid, force, force)
    apply (rule yields_ebind, rule yields_brightnessAt_solid, force, force)
    apply simp
   apply simp
  apply (simp add: filterCloseLines_def)
  done

lemma detectHorizontalLines_solid: "detectHorizontalLines (solid w h c) = Inr []"
  unfolding detectHorizontalLines_def Let_def yields_eq
  apply (rule yields_ebind)
  apply (rule yields_weaken)
   apply (rule yields_foldE [where I = "\<lambda>lines. lines = []"])
    apply simp
   apply (rule yields_ebind)
   apply (rule yields_weaken)
    apply (rule yields_foldE [where I = "\<lambda>edgeCount. edgeCount = 0"])
     apply simp
    apply (rule yields_ebind, rule yields_brightnessAt_solid, force, force)
    apply (rule yields_ebind, rule yields_brightnessAt_solid, force, force)
    apply (rule yields_ebind, rule yields_brightnessAt_solid, force, force)
    apply simp
   apply simp
  apply (simp add: filterCloseLines_def)
  done

lemma analyzeGridAlignment_solid: "analyzeGridAlignment toGrey (solid w h c) = Inr False"
  by (simp add: analyzeGridAlignment_def greyscale_solid detectVerticalLines_solid
      detectHorizontalLines_solid analyzeLineSpacing_def)

lemma half_offset:
  fixes n :: nat
  shows "(real (n div 2) - real n / 2) * (real (n div 2) - real n / 2) \<le> 1 / 4"
proof -
  have "n = 2 * (n div 2) + n mod 2" by simp
  then have "real n = 2 * real (n div 2) + real (n mod 2)"
    by (metis of_nat_add of_nat_mult of_nat_numeral)
  then have d: "real (n div 2) - real n / 2 = - real (n mod 2) / 2" by (simp add: field_simps)
  have "n mod 2 = 0 \<or> n mod 2 = 1" by auto
  then show ?thesis unfolding d by auto
qed

lemma centre_inside:
  assumes "2 \<le> w" "2 \<le> h"
  shows "sqrt ((real (w div 2) - real w / 2) * (real (w div 2) - real w / 2)
             + (real (h div 2) - real h / 2) * (real (h div 2) - real h / 2))
           < min (real w / 2) (real h / 2)"
proof -
  let ?q = "(real (w div 2) - real w / 2) * (real (w div 2) - real w / 2)
             + (real (h div 2) - real h / 2) * (real (h div 2) - real h / 2)"
  have "?q \<le> 1 / 2" using half_offset [of w] half_offset [of h] by simp
  then have "?q < 1" by simp
  then have "sqrt ?q < 1" by (simp only: real_sqrt_lt_1_iff)
  moreover have "1 \<le> min (real w / 2) (real h / 2)" using assms by simp
  ultimately show ?thesis by linarith
qed

lemma weight_nonneg:
  fixes d r :: real
  assumes "d \<le> r" "0 < r"
  shows "0 \<le> 1 - d / r"
  using assms by (simp add: field_simps)

lemma weight_pos:
  fixes d r :: real
  assumes "d < r" "0 < r"
  shows "0 < 1 - d / r"
  using assms by (simp add: field_simps)

lemma calculateRadialVariance_solid:
  "calculateRadialVariance (solid w h c) centerX centerY maxRadius (Fin (brightness c)) = Inr (Fin 0)"
  unfolding calculateRadialVariance_def Let_def yields_eq
  apply (rule yields_ebind)
  apply (rule yields_weaken)
   apply (rule yields_foldE [where I = "\<lambda>(variance, count). variance = Fin 0"])
    apply simp
   apply (rule yields_foldE [where I = "\<lambda>(variance, count). variance = Fin 0"])
    apply simp
   apply (clarsimp simp: brightnessAt_solid js_sub_def)
  apply clarsimp
  done

lemma radial_weights_solid:
  assumes "2 \<le> w" "2 \<le> h"
  shows "yields
     (foldE (\<lambda>y state.
           foldE (\<lambda>x (totalWeight, weightedSum).
             let dx = real x - real w / 2; dy = real y - real h / 2;
                 distance = sqrt (dx * dx + dy * dy)
             in if distance \<le> min (real w / 2) (real h / 2)
                then ebind (brightnessAt (solid w h c) x y) (\<lambda>b.
                       let weight = 1 - distance / min (real w / 2) (real h / 2)
                       in Inr (totalWeight + weight, weightedSum + b * weight))
                else Inr (totalWeight, weightedSum))
           [0 ..< w] state)
         [0 ..< h] (0, 0))
     (\<lambda>(totalWeight, weightedSum). weightedSum = brightness c * totalWeight \<and> 0 < totalWeight)"
proof -
  let ?R = "min (real w / 2) (real h / 2)"
  let ?x0 = "w div 2" and ?y0 = "h div 2"
  let ?b = "brightness c"
  have R: "0 < ?R" using assms by simp
  have x0: "?x0 < w" and y0: "?y0 < h" using assms by simp_all
  let ?I = "\<lambda>rows (tw, ws). ws = ?b * tw \<and> 0 \<le> tw \<and> (?y0 \<in> set rows \<longrightarrow> 0 < tw)"
  have "yields
     (foldE (\<lambda>y state.
           foldE (\<lambda>x (totalWeight, weightedSum).
             let dx = real x - real w / 2; dy = real y - real h / 2;
                 distance = sqrt (dx * dx + dy * dy)
             in if distance \<le> ?R
                then ebind (brightnessAt (solid w h c) x y) (\<lambda>b.
                       let weight = 1 - distance / ?R
                       in Inr (totalWeight + weight, weightedSum + b * weight))
                else Inr (totalWeight, weightedSum))
           [0 ..< w] state)
         [0 ..< h] (0, 0)) (?I [0 ..< h])"
  proof (rule yields_foldE_prefix, goal_cases)
    case 1
    show ?case by simp
  next
    case (2 rows y post s)
    from 2(1) have y: "y < h"
      by (metis atLeastLessThan_iff in_set_conv_decomp set_upt)
    let ?J = "\<lambda>cols (tw, ws). ws = ?b * tw \<and> 0 \<le> tw
                \<and> ((?y0 \<in> set rows \<or> (y = ?y0 \<and> ?x0 \<in> set cols)) \<longrightarrow> 0 < tw)"
    have "yields
       (foldE (\<lambda>x (totalWeight, weightedSum).
             let dx = real x - real w / 2; dy = real y - real h / 2;
                 distance = sqrt (dx * dx + dy * dy)
             in if distance \<le> ?R
                then ebind (brightnessAt (solid w h c) x y) (\<lambda>b.
                       let weight = 1 - distance / ?R
                       in Inr (totalWeight + weight, weightedSum + b * weight))
                else Inr (totalWeight, weightedSum))
           [0 ..< w] s) (?J [0 ..< w])"
    proof (rule yields_foldE_prefix, goal_cases)
      case 1
      from 2(2) show ?case by (cases s) simp
    next
      case (2 cols x post' t)
      from 2(1) have x: "x < w"
        by (metis atLeastLessThan_iff in_set_conv_decomp set_upt)
      obtain tw ws where t: "t = (tw, ws)" by (cases t)
      let ?d = "sqrt ((real x - real w / 2) * (real x - real w / 2)
                      + (real y - real h / 2) * (real y - real h / 2))"
      let ?wt = "1 - ?d / ?R"
      from 2(2) have J: "ws = ?b * tw" "0 \<le> tw"
        and Jpos: "?y0 \<in> set rows \<or> (y = ?y0 \<and> ?x0 \<in> set cols) \<Longrightarrow> 0 < tw"
        unfolding t by auto
      show ?case
      proof (cases "?d \<le> ?R")
        case True
        then have wt: "0 \<le> ?wt" using R by (rule weight_nonneg)
        have centre: "x = ?x0 \<Longrightarrow> y = ?y0 \<Longrightarrow> 0 < ?wt"
          using centre_inside [OF assms] R by (intro weight_pos) simp_all
        have a: "ws + ?b * ?wt = ?b * (tw + ?wt)"
          using J(1) by (simp only: distrib_left)
        have b: "0 \<le> tw + ?wt" using J(2) wt by simp
        have c: "0 < tw + ?wt"
          if "?y0 \<in> set rows \<or> (y = ?y0 \<and> ?x0 \<in> set (cols @ [x]))"
        proof (cases "?y0 \<in> set rows \<or> (y = ?y0 \<and> ?x0 \<in> set cols)")
          case True
          then have "0 < tw" by (rule Jpos)
          with wt show ?thesis by simp
        next
          case False
          with that have "x = ?x0" "y = ?y0" by auto
          then have "0 < ?wt" by (rule centre)
          with J(2) show ?thesis by simp
        qed
        have "?J (cols @ [x]) (tw + ?wt, ws + ?b * ?wt)"
          unfolding case_prod_conv using a b c by blast
        then have "yields (Inr (tw + ?wt, ws + ?b * ?wt)) (?J (cols @ [x]))"
          by (simp only: yields_Inr)
        then show ?thesis
          unfolding t Let_def
          by (simp only: case_prod_conv True if_True brightnessAt_solid [OF x y] ebind_Inr)
      next
        case False
        have "\<not> (x = ?x0 \<and> y = ?y0)"
          using False centre_inside [OF assms] by auto
        then have "yields (Inr (tw, ws)) (?J (cols @ [x]))"
          using J Jpos by auto
        then show ?thesis
          unfolding t Let_def by (simp only: case_prod_conv False if_False)
      qed
    qed
    then show ?case
      by (rule yields_weaken) (use x0 in auto)
  qed
  then show ?thesis
    by (rule yields_weaken) (use y0 in auto)
qed

lemma analyzeRadialBalance_solid:
  assumes "2 \<le> w" "2 \<le> h"
  shows "analyzeRadialBalance (solid w h c) = Inr (Fin 1)"
proof -
  from radial_weights_solid [OF assms, of c]
  obtain tw ws where loop: "foldE (\<lambda>y state.
           foldE (\<lambda>x (totalWeight, weightedSum).
             let dx = real x - real w / 2; dy = real y - real h / 2;
                 distance = sqrt (dx * dx + dy * dy)
             in if distance \<le> min (real w / 2) (real h / 2)
                then ebind (brightnessAt (solid w h c) x y) (\<lambda>b.
                       let weight = 1 - distance / min (real w / 2) (real h / 2)
                       in Inr (totalWeight + weight, weightedSum + b * weight))
                else Inr (totalWeight, weightedSum))
           [0 ..< w] state)
         [0 ..< h] (0, 0) = Inr (tw, ws)"
    and sums: "ws = brightness c * tw" "0 < tw"
    by (rule yieldsE) auto
  show ?thesis
    unfolding analyzeRadialBalance_def solid_simps
    apply (subst Let_def)+
    apply (subst loop [unfolded Let_def])
    using sums apply (simp add: calculateRadialVariance_solid js_sub_def)
    done
qed

lemma analyzeBalance_solid:
  assumes "2 \<le> w" "2 \<le> h"
  shows "analyzeBalance (solid w h c) = Inr Radial"
proof -
  obtain l where l: "getImageHalf (solid w h c) LeftHalf = Inr l"
    using getImageHalf_returns [OF well_formed_solid] by (rule yieldsE)
  obtain r where r: "getImageHalf (solid w h c) RightHalf = Inr r"
    using getImageHalf_returns [OF well_formed_solid] by (rule yieldsE)
  show ?thesis
    by (simp add: analyzeBalance_def l r analyzeRadialBalance_solid [OF assms])
qed

lemma checkLocalSpacing_solid: "checkLocalSpacing (solid w h c) centerX centerY = Inr False"
  unfolding checkLocalSpacing_def Let_def yields_eq
  apply (rule yields_ebind)
  apply (rule yields_weaken)
   apply (rule yields_foldE [where I = "\<lambda>(whitePixels, totalPixels).
             if brightness c > 200 then whitePixels = totalPixels else whitePixels = 0"])
    apply simp
   apply (rule yields_foldE [where I = "\<lambda>(whitePixels, totalPixels).
             if brightness c > 200 then whitePixels = totalPixels else whitePixels = 0"])
    apply simp
   apply (case_tac sa, simp only: case_prod_conv)
   apply (rule yields_ebind, rule yields_brightnessAt_solid, force, force)
   apply (simp split: if_splits)
  apply (clarsimp simp: js_lt_def split: if_splits)
  done

lemma spacing_columns_solid:
  assumes "0 < w div 10"
  shows "\<exists>k. spacing_columns (solid w h c) y x state = Some (Inr (fst state, snd state + k))"
proof (induction "w - x" arbitrary: x state rule: less_induct)
  case less
  show ?case
  proof (cases "x < w")
    case True
    with assms have "w - (x + w div 10) < w - x" by simp
    from less [OF this, of "(fst state, snd state + 1)"]
    obtain k where "spacing_columns (solid w h c) y (x + w div 10) (fst state, snd state + 1)
                      = Some (Inr (fst state, snd state + 1 + k))"
      by auto
    with True have "spacing_columns (solid w h c) y x state
                      = Some (Inr (fst state, snd state + (1 + k)))"
      by (subst spacing_columns.simps) (simp add: checkLocalSpacing_solid)
    then show ?thesis ..
  next
    case False
    then have "spacing_columns (solid w h c) y x state = Some (Inr (fst state, snd state + 0))"
      by (subst spacing_columns.simps) simp
    then show ?thesis ..
  qed
qed

lemma spacing_rows_solid:
  assumes "0 < w div 10" "0 < h div 10"
  shows "\<exists>k. spacing_rows (solid w h c) y state = Some (Inr (fst state, snd state + k))"
proof (induction "h - y" arbitrary: y state rule: less_induct)
  case less
  show ?case
  proof (cases "y < h")
    case True
    from spacing_columns_solid [OF assms(1), of h c y 0 state]
    obtain j where j: "spacing_columns (solid w h c) y 0 state
                         = Some (Inr (fst state, snd state + j))"
      by auto
    from True assms have "h - (y + h div 10) < h - y" by simp
    from less [OF this, of "(fst state, snd state + j)"]
    obtain k where "spacing_rows (solid w h c) (y + h div 10) (fst state, snd state + j)
                      = Some (Inr (fst state, snd state + j + k))"
      by auto
    with True j have "spacing_rows (solid w h c) y state
                        = Some (Inr (fst state, snd state + (j + k)))"
      by (subst spacing_rows.simps) simp
    then show ?thesis ..
  next
    case False
    then have "spacing_rows (solid w h c) y state = Some (Inr (fst state, snd state + 0))"
      by (subst spacing_rows.simps) simp
    then show ?thesis ..
  qed
qed

lemma analyzeSpacing_solid:
  assumes "10 \<le> w" "10 \<le> h"
  shows "analyzeSpacing (solid w h c) = Some (Inr False)"
proof -
  from assms have "0 < w div 10" "0 < h div 10"
    by (simp_all add: div_greater_zero_iff)
  from spacing_rows_solid [OF this, of c 0 "(0, 0)"]
  obtain k where "spacing_rows (solid w h c) 0 (0, 0) = Some (Inr (0, k))" by auto
  then show ?thesis by (simp add: analyzeSpacing_def)
qed

lemma analyzeComposition_try_solid:
  assumes "10 \<le> w" "10 \<le> h" "400 \<le> maxArguments" "(w div 3) * (h div 3) \<le> maxArguments"
    and "read imageBuffer = Inr (solid w h c)"
  shows "\<exists>analysis.
           analyzeComposition_try read toGrey maxArguments imageBuffer design_type
             = Some (Inr analysis)
           \<and> balance analysis = Radial \<and> \<not> grid_alignment analysis
           \<and> \<not> spacing_consistency analysis"
proof -
  from assms have two: "2 \<le> w" "2 \<le> h" by simp_all
  have regions: "(getWidth (solid w h c) div 3) * (getHeight (solid w h c) div 3) \<le> maxArguments"
    using assms(4) by simp
  obtain hierarchy where hierarchy:
    "analyzeVisualHierarchy maxArguments (solid w h c) design_type = Inr hierarchy"
    using analyzeVisualHierarchy_returns [OF well_formed_solid regions] by (rule yieldsE)
  obtain alignment where alignment:
    "calculateAlignmentScore maxArguments (solid w h c) = Inr alignment"
    using calculateAlignmentScore_returns [OF well_formed_solid assms(3)] by (rule yieldsE)
  show ?thesis
    by (simp add: analyzeComposition_try_def assms(5) analyzeGridAlignment_solid hierarchy
        analyzeBalance_solid [OF two] analyzeSpacing_solid [OF assms(1,2)] alignment)
qed

text \<open>
  C1, as the code has it. On a raster of one colour, at least 10 pixels wide and high,
  whose regions of \<open>width div 3\<close> by \<open>height div 3\<close> pixels hold no more pixels than the
  engine takes arguments in a call (400 at least), the composition analysis returns, and
  its result has the balance \<open>radial\<close>, no grid alignment and no consistent spacing: the
  brightness variance inside the central disc is 0, so the radial score is 1, and the
  radial test comes first.
\<close>

theorem solid_raster_composition:
  assumes "10 \<le> w" "10 \<le> h" "400 \<le> maxArguments" "(w div 3) * (h div 3) \<le> maxArguments"
    and "read imageBuffer = Inr (solid w h c)"
  shows "\<exists>analysis.
           analyzeComposition read toGrey maxArguments imageBuffer design_type = Some analysis
           \<and> balance analysis = Radial \<and> \<not> grid_alignment analysis
           \<and> \<not> spacing_consistency analysis"
proof -
  from analyzeComposition_try_solid
      [where read = read and toGrey = toGrey and imageBuffer = imageBuffer
         and design_type = design_type, OF assms]
  obtain analysis where
    "analyzeComposition_try read toGrey maxArguments imageBuffer design_type = Some (Inr analysis)"
    "balance analysis = Radial" "\<not> grid_alignment analysis" "\<not> spacing_consistency analysis"
    by blast
  then show ?thesis by (simp add: analyzeComposition_def)
qed

theorem solid_raster_composition_witness:
  "(10::nat) \<le> 10 \<and> (400::nat) \<le> 65535 \<and> (10 div 3) * (10 div 3) \<le> (65535::nat)
   \<and> white_raster [] = Inr (solid 10 10 white)
   \<and> (\<exists>analysis.
         analyzeComposition white_raster luma 65535 [] ''web'' = Some analysis
         \<and> balance analysis = Radial \<and> \<not> grid_alignment analysis
         \<and> \<not> spacing_consistency analysis)"
proof -
  have ten: "(10::nat) \<le> 10" by simp
  have args: "(400::nat) \<le> 65535" "(10 div 3) * (10 div 3) \<le> (65535::nat)" by simp_all
  have decoded: "white_raster [] = Inr (solid 10 10 white)"
    by (simp add: white_raster_def)
  show ?thesis
    using solid_raster_composition
        [where read = white_raster and toGrey = luma and imageBuffer = "[]"
           and design_type = "''web''",
         OF ten ten args decoded]
      decoded
    by simp
qed

text \<open>
  C1 as the specification states it fails on the white raster of 10 by 10 pixels: the
  balance is \<open>radial\<close>, not \<open>symmetric\<close>.
\<close>

theorem white_raster_balance_radial:
  "map_option balance (analyzeComposition white_raster luma 65535 [] ''web'') = Some Radial
   \<and> map_option balance (analyzeComposition white_raster luma 65535 [] ''web'') \<noteq> Some Symmetric"
proof -
  have ten: "(10::nat) \<le> 10" by simp
  have args: "(400::nat) \<le> 65535" "(10 div 3) * (10 div 3) \<le> (65535::nat)" by simp_all
  have decoded: "white_raster [] = Inr (solid 10 10 white)"
    by (simp add: white_raster_def)
  from analyzeComposition_try_solid
      [where read = white_raster and toGrey = luma and imageBuffer = "[]"
           and design_type = "''web''",
       OF ten ten args decoded]
  show ?thesis by (auto simp: analyzeComposition_def)
qed

subsection \<open>Rasters that are too small or too large, and the rasters between\<close>

text \<open>
  The bounds above are needed. On a well-formed raster narrower or lower than 10 pixels
  the stride of a loop of \<open>analyzeSpacing\<close> is 0, and the analysis does not return. On a
  well-formed raster whose regions hold more pixels than the engine takes arguments, a
  raster of one colour or any other, the contrast of the first region throws and the
  analysis returns the degraded result, with the balance \<open>asymmetric\<close>: with a bound of
  125000 arguments that is every raster of 1200 by 1200 pixels, or of 1920 by 1080. On a
  well-formed raster between the two the analysis returns a full result.
\<close>

lemma analyzeSpacing_stuck:
  assumes "well_formed img" "0 < getWidth img" "0 < getHeight img"
    and "getWidth img < 10 \<or> getHeight img < 10"
  shows "analyzeSpacing img = None"
proof -
  from assms(4) have "getWidth img div 10 = 0 \<or> getHeight img div 10 = 0" by auto
  with assms(1-3) have "spacing_rows img 0 (0, 0) = None"
    by (intro spacing_rows_stuck)
  then show ?thesis by (simp add: analyzeSpacing_def)
qed

lemma small_raster_never_returns:
  assumes "read imageBuffer = Inr img" "well_formed img" "0 < getWidth img" "0 < getHeight img"
    and "getWidth img < 10 \<or> getHeight img < 10"
    and "(getWidth img div 3) * (getHeight img div 3) \<le> maxArguments"
  shows "analyzeComposition read toGrey maxArguments imageBuffer design_type = None"
proof -
  obtain grid where grid: "analyzeGridAlignment toGrey img = Inr grid"
    using analyzeGridAlignment_returns [OF assms(2)] by (rule yieldsE)
  obtain hierarchy where hierarchy:
    "analyzeVisualHierarchy maxArguments img design_type = Inr hierarchy"
    using analyzeVisualHierarchy_returns [OF assms(2,6)] by (rule yieldsE)
  obtain bal where bal: "analyzeBalance img = Inr bal"
    using analyzeBalance_returns [OF assms(2)] by (rule yieldsE)
  show ?thesis
    by (simp add: analyzeComposition_def analyzeComposition_try_def assms(1) grid hierarchy bal
        analyzeSpacing_stuck [OF assms(2-5)])
qed

lemma oversized_raster_degrades:
  assumes "read imageBuffer = Inr img" "well_formed img"
    and "maxArguments < (getWidth img div 3) * (getHeight img div 3)"
  shows "analyzeComposition read toGrey maxArguments imageBuffer design_type
           = Some degraded_layout"
proof -
  obtain grid where grid: "analyzeGridAlignment toGrey img = Inr grid"
    using analyzeGridAlignment_returns [OF assms(2)] by (rule yieldsE)
  show ?thesis
    by (simp add: analyzeComposition_def analyzeComposition_try_def assms(1) grid
        analyzeVisualHierarchy_throws [OF assms(2,3)])
qed

lemma oversized_solid_raster_asymmetric:
  assumes "read imageBuffer = Inr (solid w h c)" "maxArguments < (w div 3) * (h div 3)"
  shows "map_option balance (analyzeComposition read toGrey maxArguments imageBuffer design_type)
           = Some Asymmetric"
proof -
  have "maxArguments < (getWidth (solid w h c) div 3) * (getHeight (solid w h c) div 3)"
    using assms(2) by simp
  from oversized_raster_degrades
      [where read = read and imageBuffer = imageBuffer and img = "solid w h c",
       OF assms(1) well_formed_solid this]
  show ?thesis by (simp add: degraded_layout_def)
qed

lemma large_raster_analysed:
  assumes "read imageBuffer = Inr img" "well_formed img" "10 \<le> getWidth img" "10 \<le> getHeight img"
    and "400 \<le> maxArguments" "(getWidth img div 3) * (getHeight img div 3) \<le> maxArguments"
  shows "\<exists>analysis. analyzeComposition_try read toGrey maxArguments imageBuffer design_type
                       = Some (Inr analysis)"
proof -
  obtain grid where grid: "analyzeGridAlignment toGrey img = Inr grid"
    using analyzeGridAlignment_returns [OF assms(2)] by (rule yieldsE)
  obtain hierarchy where hierarchy:
    "analyzeVisualHierarchy maxArguments img design_type = Inr hierarchy"
    using analyzeVisualHierarchy_returns [OF assms(2,6)] by (rule yieldsE)
  obtain bal where bal: "analyzeBalance img = Inr bal"
    using analyzeBalance_returns [OF assms(2)] by (rule yieldsE)
  obtain alignment where alignment: "calculateAlignmentScore maxArguments img = Inr alignment"
    using calculateAlignmentScore_returns [OF assms(2,5)] by (rule yieldsE)
  from assms(3,4) have "0 < getWidth img div 10" "0 < getHeight img div 10"
    by (simp_all add: div_greater_zero_iff)
  from spacing_rows_returns [OF assms(2) this]
  obtain state where "spacing_rows img 0 (0, 0) = Some (Inr state)" by blast
  then obtain spacing where spacing: "analyzeSpacing img = Some (Inr spacing)"
    by (cases state) (simp add: analyzeSpacing_def)
  show ?thesis
    by (simp add: analyzeComposition_try_def assms(1) grid hierarchy bal spacing alignment)
qed

end

